theory Spec2Isabelle
  imports Complex_Main "HOL-Library.Sublist"
begin

section \<open>JavaScript values\<close>

text \<open>
  A JavaScript \<open>number\<close> is an IEEE 754 double: a finite value, a signed zero, an
  infinity or \<open>NaN\<close>. \<open>Fin r\<close> is the finite number \<open>r\<close> (\<open>Fin 0\<close> is \<open>+0\<close>) and
  \<open>NegZero\<close> is \<open>-0\<close>.
\<close>

datatype number = Fin real | NegZero | PInf | NInf | NaN

text \<open>
  Every arithmetic operation returns the exact result rounded to the nearest double, ties
  to the even significand. Around \<open>x\<close> the doubles are the multiples of \<open>quantum x\<close>,
  which is \<open>2\<close> to the power \<open>e - 52\<close> for the binary exponent \<open>e\<close> of \<open>x\<close>, and
  \<open>e\<close> is never below \<open>-1022\<close> (the subnormal numbers). A result that rounds to
  \<open>2 ^ 1024\<close> or beyond is an infinity, and one that rounds to zero is the zero of its
  sign.
\<close>

definition round_even :: "real \<Rightarrow> int" where
  "round_even x =
     (let f = \<lfloor>x\<rfloor>; d = x - of_int f
      in if d < 1 / 2 then f else if 1 / 2 < d then f + 1 else if even f then f else f + 1)"

definition exponent :: "real \<Rightarrow> int" where
  "exponent x = max \<lfloor>log 2 \<bar>x\<bar>\<rfloor> (- 1022)"

definition quantum :: "real \<Rightarrow> real" where
  "quantum x = 2 powr of_int (exponent x - 52)"

definition huge :: real where
  "huge = 2 ^ 1024"

definition double_round :: "real \<Rightarrow> number" where
  "double_round x =
     (if x = 0 then Fin 0
      else
        let k = round_even (x / quantum x);
            y = quantum x * of_int k
        in if k = 0 then (if x < 0 then NegZero else Fin 0)
           else if huge \<le> \<bar>y\<bar> then (if x < 0 then NInf else PInf)
           else Fin y)"

text \<open>The sign bit, the real a finite number stands for, and the two kinds of special operand.\<close>

fun negative :: "number \<Rightarrow> bool" where
  "negative (Fin a) = (a < 0)"
| "negative NegZero = True"
| "negative NInf = True"
| "negative PInf = False"
| "negative NaN = False"

fun finite_value :: "number \<Rightarrow> real" where
  "finite_value (Fin a) = a"
| "finite_value _ = 0"

fun is_zero :: "number \<Rightarrow> bool" where
  "is_zero (Fin a) = (a = 0)"
| "is_zero NegZero = True"
| "is_zero _ = False"

fun is_infinite :: "number \<Rightarrow> bool" where
  "is_infinite PInf = True"
| "is_infinite NInf = True"
| "is_infinite _ = False"

definition signed_zero :: "bool \<Rightarrow> number" where
  "signed_zero neg = (if neg then NegZero else Fin 0)"

definition signed_infinity :: "bool \<Rightarrow> number" where
  "signed_infinity neg = (if neg then NInf else PInf)"

text \<open>
  \<open>a + b\<close>: \<open>NaN\<close> is absorbing and \<open>Infinity + -Infinity\<close> is \<open>NaN\<close>; a sum that is
  exactly zero is \<open>+0\<close>, except \<open>-0 + -0\<close>.
\<close>

definition js_add :: "number \<Rightarrow> number \<Rightarrow> number" where
  "js_add a b =
     (if a = NaN \<or> b = NaN then NaN
      else if is_infinite a then (if is_infinite b \<and> a \<noteq> b then NaN else a)
      else if is_infinite b then b
      else if a = NegZero \<and> b = NegZero then NegZero
      else double_round (finite_value a + finite_value b))"

text \<open>
  \<open>a * b\<close> and \<open>a / b\<close>: the sign of the result is the exclusive or of the signs of the
  operands; \<open>0 * Infinity\<close>, \<open>Infinity / Infinity\<close> and \<open>0 / 0\<close> are \<open>NaN\<close>, and a
  number that is not zero divided by a zero is an infinity.
\<close>

definition js_mul :: "number \<Rightarrow> number \<Rightarrow> number" where
  "js_mul a b =
     (if a = NaN \<or> b = NaN then NaN
      else if is_infinite a \<or> is_infinite b
      then (if is_zero a \<or> is_zero b then NaN else signed_infinity (negative a \<noteq> negative b))
      else if is_zero a \<or> is_zero b then signed_zero (negative a \<noteq> negative b)
      else double_round (finite_value a * finite_value b))"

definition js_div :: "number \<Rightarrow> number \<Rightarrow> number" where
  "js_div a b =
     (if a = NaN \<or> b = NaN then NaN
      else if is_infinite a
      then (if is_infinite b then NaN else signed_infinity (negative a \<noteq> negative b))
      else if is_infinite b then signed_zero (negative a \<noteq> negative b)
      else if is_zero b
      then (if is_zero a then NaN else signed_infinity (negative a \<noteq> negative b))
      else if is_zero a then signed_zero (negative a \<noteq> negative b)
      else double_round (finite_value a / finite_value b))"

fun js_abs :: "number \<Rightarrow> number" where
  "js_abs (Fin a) = Fin \<bar>a\<bar>"
| "js_abs NegZero = Fin 0"
| "js_abs PInf = PInf"
| "js_abs NInf = PInf"
| "js_abs NaN = NaN"

text \<open>
  \<open>Math.pow(x, 0.5)\<close>, which is the correctly rounded square root for \<open>x\<close> from \<open>+0\<close>
  on, \<open>+0\<close> for \<open>-0\<close>, and \<open>NaN\<close> for a negative number. (\<open>Math.pow\<close> is only
  required to approximate; it is taken as the engines compute it at the exponents \<open>2\<close>
  and \<open>0.5\<close>, by one multiplication and by the square root.) The numeric library calls it
  on a sum of squares, which is not negative; where that sum is \<open>NaN\<close> the library leaves
  the real numbers, and the result here stays \<open>NaN\<close>.
\<close>

fun js_sqrt :: "number \<Rightarrow> number" where
  "js_sqrt (Fin a) = (if a < 0 then NaN else double_round (sqrt a))"
| "js_sqrt NegZero = Fin 0"
| "js_sqrt PInf = PInf"
| "js_sqrt NInf = NaN"
| "js_sqrt NaN = NaN"

text \<open>
  \<open>a < b\<close> and \<open>a > b\<close> of the language: every comparison with \<open>NaN\<close> is false, and the
  two zeros are equal.
\<close>

fun js_lt :: "number \<Rightarrow> number \<Rightarrow> bool" where
  "js_lt NaN _ = False"
| "js_lt _ NaN = False"
| "js_lt PInf _ = False"
| "js_lt _ PInf = True"
| "js_lt _ NInf = False"
| "js_lt NInf _ = True"
| "js_lt a b = (finite_value a < finite_value b)"

definition js_gt :: "number \<Rightarrow> number \<Rightarrow> bool" where
  "js_gt a b = js_lt b a"

text \<open>
  What can be thrown: an instance of \<open>Error\<close> (with the two subclasses the code can meet),
  or any other value.
\<close>

datatype thrown =
    Error string
  | TypeError string
  | RangeError string
  | NonError

type_synonym 'a result = "thrown + 'a"

text \<open>
  \<open>Error.prototype.toString\<close>: the name, and the message when there is one. The code
  calls it on instances of \<open>Error\<close> only.
\<close>

definition error_toString :: "string \<Rightarrow> string \<Rightarrow> string" where
  "error_toString nm msg = (if msg = [] then nm else nm @ '': '' @ msg)"

fun toString :: "thrown \<Rightarrow> string" where
  "toString (Error msg) = error_toString ''Error'' msg"
| "toString (TypeError msg) = error_toString ''TypeError'' msg"
| "toString (RangeError msg) = error_toString ''RangeError'' msg"
| "toString NonError = []"

fun instanceof_Error :: "thrown \<Rightarrow> bool" where
  "instanceof_Error NonError = False"
| "instanceof_Error _ = True"

text \<open>Values of type \<open>any\<close>, as far as a type guard inspects them.\<close>

datatype jsval =
    JUndefined
  | JNull
  | JBool bool
  | JNum number
  | JStr string
  | JArr "jsval list"
  | JObj "(string \<times> jsval) list"

fun number_truthy :: "number \<Rightarrow> bool" where
  "number_truthy (Fin a) = (a \<noteq> 0)"
| "number_truthy NegZero = False"
| "number_truthy NaN = False"
| "number_truthy _ = True"

fun truthy :: "jsval \<Rightarrow> bool" where
  "truthy JUndefined = False"
| "truthy JNull = False"
| "truthy (JBool b) = b"
| "truthy (JNum n) = number_truthy n"
| "truthy (JStr s) = (s \<noteq> [])"
| "truthy (JArr _) = True"
| "truthy (JObj _) = True"

text \<open>
  A property read \<open>v.k\<close>: a \<open>TypeError\<close> on \<open>undefined\<close> and \<open>null\<close>, the own property
  of an object, and \<open>undefined\<close> where there is none (for the property names read below
  no primitive or array has one).
\<close>

fun get_prop :: "jsval \<Rightarrow> string \<Rightarrow> jsval result" where
  "get_prop JUndefined k =
     Inl (TypeError (''Cannot read properties of undefined (reading '' @ [CHR 0x27] @ k @ [CHR 0x27] @ '')''))"
| "get_prop JNull k =
     Inl (TypeError (''Cannot read properties of null (reading '' @ [CHR 0x27] @ k @ [CHR 0x27] @ '')''))"
| "get_prop (JObj fs) k = Inr (case map_of fs k of Some v \<Rightarrow> v | None \<Rightarrow> JUndefined)"
| "get_prop _ k = Inr JUndefined"

text \<open>\<open>a.k1.k2\<close>: the second read happens only when the first returned.\<close>

definition get_path :: "jsval \<Rightarrow> string \<Rightarrow> string \<Rightarrow> jsval result" where
  "get_path v k1 k2 = (case get_prop v k1 of Inl e \<Rightarrow> Inl e | Inr w \<Rightarrow> get_prop w k2)"

text \<open>
  \<open>a && b\<close>: the value of \<open>a\<close> when it is falsy, and else the value of \<open>b\<close>, which is
  evaluated only then.
\<close>

definition js_and :: "jsval result \<Rightarrow> jsval result \<Rightarrow> jsval result" where
  "js_and a b = (case a of Inl e \<Rightarrow> Inl e | Inr v \<Rightarrow> if truthy v then b else Inr v)"

section \<open>The data model (shared types)\<close>

record Context =
  tone :: string
  setting :: string
  conversationType :: string

record Bio =
  name :: string
  age :: number
  aboutMe :: string

text \<open>
  \<open>TestCase extends Partial<DataItem>\<close>: the identifier and the creation date are
  optional. Modelled from the spec: the declaration of \<open>DataItem\<close> is not among the
  sources; section 3 gives the identifier, and the code reads \<open>id\<close> and
  \<open>dateCreatedUtc\<close>.
\<close>

record TestCase =
  tc_id :: "string option"
  dateCreatedUtc :: "number option"
  tc_context :: Context
  bio :: Bio
  utterance :: string
  goodCompletions :: "string list"

text \<open>A \<open>TestCase\<close> as the object a caller passes to the type guard.\<close>

definition optional_field :: "string \<Rightarrow> jsval option \<Rightarrow> (string \<times> jsval) list" where
  "optional_field k v = (case v of None \<Rightarrow> [] | Some w \<Rightarrow> [(k, w)])"

definition TestCase_object :: "TestCase \<Rightarrow> jsval" where
  "TestCase_object tc =
     JObj (optional_field ''id'' (map_option JStr (tc_id tc))
         @ optional_field ''dateCreatedUtc'' (map_option JNum (dateCreatedUtc tc))
         @ [(''context'', JObj [(''tone'', JStr (tone (tc_context tc))),
                               (''setting'', JStr (setting (tc_context tc))),
                               (''conversationType'', JStr (conversationType (tc_context tc)))]),
            (''bio'', JObj [(''name'', JStr (name (bio tc))),
                           (''age'', JNum (age (bio tc))),
                           (''aboutMe'', JStr (aboutMe (bio tc)))]),
            (''utterance'', JStr (utterance tc)),
            (''goodCompletions'', JArr (map JStr (goodCompletions tc)))])"

subsection \<open>The type guard\<close>

definition isTestCase :: "jsval \<Rightarrow> jsval result" where
  "isTestCase testCase =
     js_and (Inr testCase)
    (js_and (get_prop testCase ''context'')
    (js_and (get_path testCase ''context'' ''tone'')
    (js_and (get_path testCase ''context'' ''setting'')
    (js_and (get_path testCase ''context'' ''conversationType'')
    (js_and (get_prop testCase ''bio'')
    (js_and (get_path testCase ''bio'' ''name'')
    (js_and (get_path testCase ''bio'' ''age'')
    (js_and (get_path testCase ''bio'' ''aboutMe'')
    (js_and (get_prop testCase ''utterance'')
            (get_prop testCase ''goodCompletions''))))))))))"

section \<open>Template expansion\<close>

text \<open>
  \<open>String.prototype.split\<close> with a string separator and no limit: the pieces between
  the occurrences of the separator, found from the left and not overlapping. The empty
  separator splits into single characters.
\<close>

function split_from :: "string \<Rightarrow> string \<Rightarrow> string \<Rightarrow> string list" where
  "split_from sep piece [] = [piece]"
| "split_from sep piece (c # cs) =
     (if sep \<noteq> [] \<and> prefix sep (c # cs)
      then piece # split_from sep [] (drop (length sep) (c # cs))
      else split_from sep (piece @ [c]) cs)"
  by pat_completeness auto
termination
  by (relation "measure (\<lambda>(sep, piece, s). length s)") auto

definition split :: "string \<Rightarrow> string \<Rightarrow> string list" where
  "split s sep = (if sep = [] then map (\<lambda>c. [c]) s else split_from sep [] s)"

text \<open>\<open>Array.prototype.join\<close> on an array of strings.\<close>

fun join :: "string list \<Rightarrow> string \<Rightarrow> string" where
  "join [] sep = []"
| "join [p] sep = p"
| "join (p # q # ps) sep = p @ sep @ join (q # ps) sep"

text \<open>
  \<open>replaceMultiple\<close>. The replacements are the own properties of the object in the
  order \<open>for ... in\<close> enumerates them, which for keys that are not array indices is the
  order of the object literal.
\<close>

definition replaceMultiple :: "string \<Rightarrow> (string \<times> string) list \<Rightarrow> string" where
  "replaceMultiple original replacements =
     foldl (\<lambda>result (key, v). join (split result key) v) original replacements"

text \<open>
  The specification's reading of one substitution: going through the string from the
  left, every occurrence of the token is replaced by the value.
\<close>

function replace_every :: "string \<Rightarrow> string \<Rightarrow> string \<Rightarrow> string" where
  "replace_every token v [] = []"
| "replace_every token v (c # cs) =
     (if token \<noteq> [] \<and> prefix token (c # cs)
      then v @ replace_every token v (drop (length token) (c # cs))
      else c # replace_every token v cs)"
  by pat_completeness auto
termination
  by (relation "measure (\<lambda>(token, v, s). length s)") auto

text \<open>
  The replacements \<open>runPromptTestCase\<close> passes, in the order of its object literal.
  \<open>Number.prototype.toString\<close> is a parameter.
\<close>

definition prompt_fields :: "(number \<Rightarrow> string) \<Rightarrow> TestCase \<Rightarrow> (string \<times> string) list" where
  "prompt_fields numberToString testCase =
     [(''{name}'', name (bio testCase)),
      (''{age}'', numberToString (age (bio testCase))),
      (''{about_me}'', aboutMe (bio testCase)),
      (''{conversation_type}'', conversationType (tc_context testCase)),
      (''{setting}'', setting (tc_context testCase)),
      (''{tone}'', tone (tc_context testCase)),
      (''{utterance}'', utterance testCase)]"

section \<open>Vector scoring\<close>

text \<open>The decimal digits of an array length, as string concatenation renders it.\<close>

function decimal :: "nat \<Rightarrow> string" where
  "decimal n =
     (if n < 10 then [''0123456789'' ! n]
      else decimal (n div 10) @ [''0123456789'' ! (n mod 10)])"
  by pat_completeness auto
termination
  by (relation "measure (\<lambda>n. n)") auto

text \<open>
  \<open>val + vector[i]\<close>: a read past the end of the array gives \<open>undefined\<close>, and a number
  plus \<open>undefined\<close> is \<open>NaN\<close>.
\<close>

definition plus_at :: "number list \<Rightarrow> number \<times> nat \<Rightarrow> number" where
  "plus_at vector = (\<lambda>(val, i). if i < length vector then js_add val (vector ! i) else NaN)"

text \<open>
  \<open>averageOfVectors\<close>: \<open>vectors[0].length\<close> throws on the empty array; \<open>reduce\<close> starts
  from a zero vector of the first vector's length; the length of an array is a number that
  is exact.
\<close>

definition averageOfVectors :: "number list list \<Rightarrow> number list result" where
  "averageOfVectors vectors =
     (case vectors of
        [] \<Rightarrow> Inl (TypeError (''Cannot read properties of undefined (reading '' @ [CHR 0x27] @ ''length'' @ [CHR 0x27] @ '')''))
      | v0 # _ \<Rightarrow>
          Inr (map (\<lambda>val. js_div val (Fin (real (length vectors))))
                 (foldl (\<lambda>acc vector. map (plus_at vector) (zip acc [0..<length acc]))
                    (replicate (length v0) (Fin 0)) vectors)))"

text \<open>
  The functions of the numeric library (a dependency, not part of the sources) on plain
  arrays of numbers: \<open>dot\<close> rejects vectors of different or of zero length and adds the
  products to the first one, from left to right; \<open>norm\<close> adds to \<open>0\<close> the absolute values
  raised to the power \<open>2\<close> and raises the sum to the power \<open>0.5\<close>; \<open>multiply\<close> and
  \<open>divide\<close> on two numbers are the language's.
\<close>

definition math_dot :: "number list \<Rightarrow> number list \<Rightarrow> number result" where
  "math_dot A B =
     (if length A \<noteq> length B
      then Inl (RangeError (''Vectors must have equal length ('' @ decimal (length A)
                              @ '' != '' @ decimal (length B) @ '')''))
      else (case zip A B of
              [] \<Rightarrow> Inl (RangeError ''Cannot calculate the dot product of empty vectors'')
            | (a0, b0) # rest \<Rightarrow>
                Inr (foldl (\<lambda>c (a, b). js_add c (js_mul a b)) (js_mul a0 b0) rest)))"

definition math_norm :: "number list \<Rightarrow> number" where
  "math_norm A = js_sqrt (foldl (\<lambda>n x. js_add (js_mul (js_abs x) (js_abs x)) n) (Fin 0) A)"

definition cosineSimilarity :: "number list \<Rightarrow> number list \<Rightarrow> number result" where
  "cosineSimilarity A B =
     (case math_dot A B of
        Inl e \<Rightarrow> Inl e
      | Inr dotProduct \<Rightarrow>
          (let magnitudeA = math_norm A;
               magnitudeB = math_norm B
           in Inr (js_div dotProduct (js_mul magnitudeA magnitudeB))))"

section \<open>The evaluation of one test case\<close>

text \<open>
  Modelled from the spec: the declarations of \<open>PromptCandidate\<close>, \<open>PromptTestResults\<close>
  and \<open>TestResultsStatus\<close> are not among the sources. Section 3 gives their fields and
  the three statuses; the fields below are those \<open>processTestCase\<close> reads.
\<close>

record PromptCandidate =
  pc_id :: "string option"
  prompt :: string

record PromptTestResults =
  ptr_id :: "string option"
  llmModel :: string
  embeddingsModel :: string
  temperature :: number
  maxTokens :: number

datatype TestResultsStatus = IN_PROGRESS | DONE | ERROR

text \<open>
  What an invocation does to the outside, in the order it does it: the writes to the result
  store, the requests to the two services and the waits between attempts.
\<close>

datatype event =
    StatusWrite string string TestResultsStatus "string option"
  | ResultWrite string string number "string list"
  | GptCall string string number number
  | EmbedCall "string list" string
  | Wait nat

type_synonym 'a effect = "event list \<Rightarrow> 'a result \<times> event list"

text \<open>
  The two services are outside the sources: the answer to a request is any function of the
  request and of what happened before it, so a service can fail on some attempts and answer
  on others.
\<close>

record externals =
  number_toString :: "number \<Rightarrow> string"
  getGptCompletion :: "event list \<Rightarrow> string \<Rightarrow> string \<Rightarrow> number \<Rightarrow> number \<Rightarrow> string list result"
  embedTexts :: "event list \<Rightarrow> string list \<Rightarrow> string \<Rightarrow> number list list result"

text \<open>A request: its answer, and the request recorded.\<close>

definition request :: "(event list \<Rightarrow> 'a result) \<Rightarrow> event \<Rightarrow> 'a effect" where
  "request answer ev t = (answer t, t @ [ev])"

definition call_getGptCompletion ::
  "externals \<Rightarrow> string \<Rightarrow> string \<Rightarrow> number \<Rightarrow> number \<Rightarrow> string list effect" where
  "call_getGptCompletion ext formattedPrompt openaiModel temp maxTok =
     request (\<lambda>t. getGptCompletion ext t formattedPrompt openaiModel temp maxTok)
       (GptCall formattedPrompt openaiModel temp maxTok)"

definition call_embedTexts :: "externals \<Rightarrow> string list \<Rightarrow> string \<Rightarrow> number list list effect" where
  "call_embedTexts ext texts embeddingsModelName =
     request (\<lambda>t. embedTexts ext t texts embeddingsModelName) (EmbedCall texts embeddingsModelName)"

text \<open>
  Modelled from the spec: \<open>retryOnFailure\<close> of \<open>./httpUtils\<close> is not among the sources.
  Section 4.2: invoke the operation; on success return immediately; on failure, if attempts
  remain, wait the fixed delay and retry; after \<open>maxAttempts\<close> attempts that all failed,
  propagate the final error unchanged. Every failure is retried alike.
\<close>

function retryOnFailure :: "'a effect \<Rightarrow> nat \<Rightarrow> nat \<Rightarrow> 'a effect" where
  "retryOnFailure operation maxAttempts delaySeconds t =
     (case operation t of
        (Inr v, t') \<Rightarrow> (Inr v, t')
      | (Inl e, t') \<Rightarrow>
          if maxAttempts \<le> 1 then (Inl e, t')
          else retryOnFailure operation (maxAttempts - 1) delaySeconds (t' @ [Wait delaySeconds]))"
  by pat_completeness auto
termination
  by (relation "measure (\<lambda>(operation, maxAttempts, delaySeconds, t). maxAttempts)") auto

definition OPENAI_MAX_RETRY :: nat where "OPENAI_MAX_RETRY = 4"
definition OPENAI_WAIT_TIME_SECONDS :: nat where "OPENAI_WAIT_TIME_SECONDS = 5"
definition HUGGINGFACE_MAX_RETRY :: nat where "HUGGINGFACE_MAX_RETRY = 4"
definition HUGGINGFACE_WAIT_TIME_SECONDS :: nat where "HUGGINGFACE_WAIT_TIME_SECONDS = 5"

text \<open>
  Modelled from the spec: \<open>TestResultsDatabaseService\<close> is not among the sources.
  Section 6: \<open>setStatus(runId, testCaseId, status, message?) -> ack\<close> and
  \<open>saveResult(runId, testCaseId, score, completions) -> ack\<close>; both persist before they
  return. Section 4.5, step 6: the saved result is the record's \<open>DONE\<close>.
\<close>

definition updateTestCaseResultStatus ::
  "string \<Rightarrow> string \<Rightarrow> TestResultsStatus \<Rightarrow> string option \<Rightarrow> event list \<Rightarrow> event list" where
  "updateTestCaseResultStatus runId testCaseId status message t =
     t @ [StatusWrite runId testCaseId status message]"

definition saveTestCaseResult ::
  "string \<Rightarrow> string \<Rightarrow> number \<Rightarrow> string list \<Rightarrow> event list \<Rightarrow> event list" where
  "saveTestCaseResult runId testCaseId score completions t =
     t @ [ResultWrite runId testCaseId score completions]"

fun persisted_status :: "event \<Rightarrow> TestResultsStatus option" where
  "persisted_status (StatusWrite runId testCaseId status message) = Some status"
| "persisted_status (ResultWrite runId testCaseId score completions) = Some DONE"
| "persisted_status _ = None"

text \<open>
  \<open>runPromptTestCase\<close>. Each \<open>await\<close> either goes on with the value or leaves with the
  error. Logging and the construction of the two service objects are left out.
\<close>

definition runPromptTestCase ::
  "externals \<Rightarrow> PromptCandidate \<Rightarrow> TestCase \<Rightarrow> string \<Rightarrow> string \<Rightarrow> number \<Rightarrow> number
     \<Rightarrow> (string list \<times> number) effect" where
  "runPromptTestCase ext promptCandidate testCase openaiModel embeddingsModelName temp maxTok t =
     (let formattedPrompt =
            replaceMultiple (prompt promptCandidate)
              (prompt_fields (number_toString ext) testCase)
      in case retryOnFailure
                (call_getGptCompletion ext formattedPrompt openaiModel temp maxTok)
                OPENAI_MAX_RETRY OPENAI_WAIT_TIME_SECONDS t of
           (Inl e, t1) \<Rightarrow> (Inl e, t1)
         | (Inr gptCompletions, t1) \<Rightarrow>
        (case retryOnFailure (call_embedTexts ext gptCompletions embeddingsModelName)
                HUGGINGFACE_MAX_RETRY HUGGINGFACE_WAIT_TIME_SECONDS t1 of
           (Inl e, t2) \<Rightarrow> (Inl e, t2)
         | (Inr gptEmbeddings, t2) \<Rightarrow>
        (case retryOnFailure (call_embedTexts ext (goodCompletions testCase) embeddingsModelName)
                HUGGINGFACE_MAX_RETRY HUGGINGFACE_WAIT_TIME_SECONDS t2 of
           (Inl e, t3) \<Rightarrow> (Inl e, t3)
         | (Inr goodEmbeddings, t3) \<Rightarrow>
        (case averageOfVectors gptEmbeddings of
           Inl e \<Rightarrow> (Inl e, t3)
         | Inr avgGptEmbedding \<Rightarrow>
        (case averageOfVectors goodEmbeddings of
           Inl e \<Rightarrow> (Inl e, t3)
         | Inr avgGoodEmbedding \<Rightarrow>
        (case cosineSimilarity avgGptEmbedding avgGoodEmbedding of
           Inl e \<Rightarrow> (Inl e, t3)
         | Inr cosineSimilarityScore \<Rightarrow>
             (Inr (gptCompletions, cosineSimilarityScore), t3)))))))"

text \<open>The \<open>catch\<close> block of \<open>processTestCase\<close>.\<close>

definition on_error :: "string \<Rightarrow> string \<Rightarrow> thrown \<Rightarrow> unit effect" where
  "on_error runId testCaseId error t =
     (Inr (),
      updateTestCaseResultStatus runId testCaseId ERROR
        (Some (if instanceof_Error error then toString error else ''unknown error'')) t)"

definition out_of_range_message :: "externals \<Rightarrow> number \<Rightarrow> string" where
  "out_of_range_message ext cosineSimilarityScore =
     ''Cosine similarity score is out of range'' @ [CHR 0x0A]
       @ ''            [-1, 1]: '' @ number_toString ext cosineSimilarityScore"

text \<open>
  \<open>!x\<close> on an optional string: true when the identifier is absent and when it is the
  empty string.
\<close>

definition missing :: "string option \<Rightarrow> bool" where
  "missing x = (case x of None \<Rightarrow> True | Some s \<Rightarrow> s = [])"

text \<open>
  \<open>processTestCase\<close>: the two identifier checks, the status write, the \<open>try\<close> block
  and its \<open>catch\<close>. It returns normally (\<open>Inr ()\<close>) or leaves with what it threw.
\<close>

definition processTestCase ::
  "externals \<Rightarrow> PromptCandidate \<Rightarrow> TestCase \<Rightarrow> PromptTestResults \<Rightarrow> unit effect" where
  "processTestCase ext promptCandidate testCase promptTestResults t =
     (if missing (tc_id testCase) then (Inl (Error ''Test case id is missing''), t)
      else if missing (ptr_id promptTestResults)
      then (Inl (Error ''Prompt test results id is missing''), t)
      else
        let runId = the (ptr_id promptTestResults);
            testCaseId = the (tc_id testCase);
            t0 = updateTestCaseResultStatus runId testCaseId IN_PROGRESS None t
        in case runPromptTestCase ext promptCandidate testCase (llmModel promptTestResults)
                  (embeddingsModel promptTestResults) (temperature promptTestResults)
                  (maxTokens promptTestResults) t0 of
             (Inl error, t1) \<Rightarrow> on_error runId testCaseId error t1
           | (Inr (llmCompletions, cosineSimilarityScore), t1) \<Rightarrow>
               if js_gt cosineSimilarityScore (Fin 1) \<or> js_lt cosineSimilarityScore (Fin (- 1))
               then on_error runId testCaseId
                      (Error (out_of_range_message ext cosineSimilarityScore)) t1
               else (Inr (), saveTestCaseResult runId testCaseId cosineSimilarityScore
                               llmCompletions t1))"

section \<open>Notions the properties are stated with\<close>

text \<open>
  The trace after \<open>k\<close> failed attempts of one request, each followed by the wait.
\<close>

definition failed_attempts :: "event list \<Rightarrow> event \<Rightarrow> nat \<Rightarrow> nat \<Rightarrow> event list" where
  "failed_attempts t ev delaySeconds k = t @ concat (replicate k [ev, Wait delaySeconds])"

fun is_store_write :: "event \<Rightarrow> bool" where
  "is_store_write (StatusWrite runId testCaseId status message) = True"
| "is_store_write (ResultWrite runId testCaseId score completions) = True"
| "is_store_write _ = False"

fun is_service_call :: "event \<Rightarrow> bool" where
  "is_service_call (GptCall formattedPrompt openaiModel temp maxTok) = True"
| "is_service_call (EmbedCall texts embeddingsModelName) = True"
| "is_service_call _ = False"

text \<open>The steps of the completion phase and of the embedding phase.\<close>

fun completion_step :: "event \<Rightarrow> bool" where
  "completion_step (GptCall formattedPrompt openaiModel temp maxTok) = True"
| "completion_step (Wait delaySeconds) = True"
| "completion_step _ = False"

fun embedding_step :: "event \<Rightarrow> bool" where
  "embedding_step (EmbedCall texts embeddingsModelName) = True"
| "embedding_step (Wait delaySeconds) = True"
| "embedding_step _ = False"

text \<open>The record a write goes to: the run and the test case.\<close>

fun write_key :: "event \<Rightarrow> (string \<times> string) option" where
  "write_key (StatusWrite runId testCaseId status message) = Some (runId, testCaseId)"
| "write_key (ResultWrite runId testCaseId score completions) = Some (runId, testCaseId)"
| "write_key _ = None"

text \<open>
  The last lines of \<open>runPromptTestCase\<close>, on the two answers of the embedding service:
  the two averages, then their similarity.
\<close>

definition scoring :: "number list list \<Rightarrow> number list list \<Rightarrow> number result" where
  "scoring gptEmbeddings goodEmbeddings =
     (case averageOfVectors gptEmbeddings of
        Inl e \<Rightarrow> Inl e
      | Inr avgGptEmbedding \<Rightarrow>
          (case averageOfVectors goodEmbeddings of
             Inl e \<Rightarrow> Inl e
           | Inr avgGoodEmbedding \<Rightarrow> cosineSimilarity avgGptEmbedding avgGoodEmbedding))"

text \<open>
  The write \<open>processTestCase\<close> ends with, given what \<open>runPromptTestCase\<close> returned.
\<close>

definition final_write :: "externals \<Rightarrow> string \<Rightarrow> string \<Rightarrow> (string list \<times> number) result \<Rightarrow> event" where
  "final_write ext runId testCaseId r =
     (case r of
        Inl error \<Rightarrow>
          StatusWrite runId testCaseId ERROR
            (Some (if instanceof_Error error then toString error else ''unknown error''))
      | Inr (llmCompletions, cosineSimilarityScore) \<Rightarrow>
          if js_gt cosineSimilarityScore (Fin 1) \<or> js_lt cosineSimilarityScore (Fin (- 1))
          then StatusWrite runId testCaseId ERROR
                 (Some (toString (Error (out_of_range_message ext cosineSimilarityScore))))
          else ResultWrite runId testCaseId cosineSimilarityScore llmCompletions)"

text \<open>
  The reals that are doubles, and the numbers that are: rounding leaves them as they are.
\<close>

definition representable :: "real \<Rightarrow> bool" where
  "representable r = (double_round r = Fin r)"

definition is_double :: "number \<Rightarrow> bool" where
  "is_double n = (case n of Fin r \<Rightarrow> representable r | _ \<Rightarrow> True)"



subsection \<open>Inputs of the examples\<close>

text \<open>A rendering of numbers that agrees with the language on the integers.\<close>

definition integer_toString :: "number \<Rightarrow> string" where
  "integer_toString n =
     (case n of
        Fin r \<Rightarrow> if 0 \<le> r then decimal (nat \<lfloor>r\<rfloor>) else CHR ''-'' # decimal (nat \<lfloor>- r\<rfloor>)
      | NegZero \<Rightarrow> ''0''
      | PInf \<Rightarrow> ''Infinity''
      | NInf \<Rightarrow> ''-Infinity''
      | NaN \<Rightarrow> ''NaN'')"

definition example_testCase :: TestCase where
  "example_testCase =
     \<lparr>tc_id = Some ''tc1'', dateCreatedUtc = None,
      tc_context = \<lparr>tone = ''calm'', setting = ''home'', conversationType = ''chat''\<rparr>,
      bio = \<lparr>name = ''Alice'', age = Fin 5, aboutMe = ''I like tea''\<rparr>,
      utterance = ''water'', goodCompletions = [''I want water'']\<rparr>"

definition example_prompt :: PromptCandidate where
  "example_prompt = \<lparr>pc_id = Some ''p1'', prompt = ''Hi {name}, age {age}''\<rparr>"

definition example_run :: PromptTestResults where
  "example_run =
     \<lparr>ptr_id = Some ''run1'', llmModel = ''gpt'', embeddingsModel = ''emb'',
      temperature = Fin 0, maxTokens = Fin 50\<rparr>"

text \<open>
  Services that answer every request: one completion, and for each text the same unit vector.
  Then a completion service that is down, and an embedding service that answers with zero
  vectors.
\<close>

definition ext_ok :: externals where
  "ext_ok =
     \<lparr>number_toString = integer_toString,
      getGptCompletion = (\<lambda>t formattedPrompt openaiModel temp maxTok. Inr [''I need a drink'']),
      embedTexts = (\<lambda>t texts embeddingsModelName. Inr (map (\<lambda>text. [Fin 1, Fin 0]) texts))\<rparr>"

definition ext_down :: externals where
  "ext_down =
     ext_ok\<lparr>getGptCompletion :=
       (\<lambda>t formattedPrompt openaiModel temp maxTok. Inl (Error ''service unavailable''))\<rparr>"

definition ext_zero :: externals where
  "ext_zero =
     ext_ok\<lparr>embedTexts :=
       (\<lambda>t texts embeddingsModelName. Inr (map (\<lambda>text. [Fin 0, Fin 0]) texts))\<rparr>"



text \<open>
  An embedding service that answers with no vector at all, and one that rejects with a
  value that is not an \<open>Error\<close>.
\<close>

definition ext_no_vectors :: externals where
  "ext_no_vectors = ext_ok\<lparr>embedTexts := (\<lambda>t texts embeddingsModelName. Inr [])\<rparr>"

definition ext_reject :: externals where
  "ext_reject = ext_ok\<lparr>embedTexts := (\<lambda>t texts embeddingsModelName. Inl NonError)\<rparr>"

text \<open>\<open>-1 \<le> score \<le> 1\<close>: both comparisons hold, so the score is a number in the range.\<close>

definition within_range :: "number \<Rightarrow> bool" where
  "within_range score =
     (case score of Fin r \<Rightarrow> - 1 \<le> r \<and> r \<le> 1 | NegZero \<Rightarrow> True | _ \<Rightarrow> False)"


text \<open>A request that always fails, with an error that tells the attempts apart.\<close>

definition failing :: "event list \<Rightarrow> string list result" where
  "failing t = Inl (Error (''attempt '' @ decimal (Suc (length (filter is_service_call t)))))"

definition fails_twice :: "event list \<Rightarrow> string list result" where
  "fails_twice t =
     (if length (filter is_service_call t) < 2 then failing t else Inr [''done''])"

section \<open>Properties\<close>

declare retryOnFailure.simps [simp del]

lemmas example_defs = example_testCase_def example_prompt_def example_run_def ext_ok_def
  ext_down_def ext_zero_def ext_no_vectors_def ext_reject_def integer_toString_def

subsection \<open>Template expansion\<close>

lemma split_from_nonempty: "split_from sep piece s \<noteq> []"
  by (induction sep piece s rule: split_from.induct) auto

lemma join_Cons: "xs \<noteq> [] \<Longrightarrow> join (p # xs) v = p @ v @ join xs v"
  by (cases xs) auto

lemma join_split_from:
  "join (split_from sep piece s) v = piece @ replace_every sep v s"
proof (induction sep piece s rule: split_from.induct)
  case (1 sep piece)
  show ?case by simp
next
  case (2 sep piece c cs)
  show ?case
  proof (cases "sep \<noteq> [] \<and> prefix sep (c # cs)")
    case True
    with 2 show ?thesis
      by (simp add: join_Cons split_from_nonempty del: drop_Suc_Cons)
  next
    case False
    with 2 show ?thesis by auto
  qed
qed

lemma join_split: "key \<noteq> [] \<Longrightarrow> join (split s key) v = replace_every key v s"
  by (simp add: split_def join_split_from)

lemma replaceMultiple_replace_every:
  "\<forall>(key, v) \<in> set replacements. key \<noteq> [] \<Longrightarrow>
   replaceMultiple original replacements =
     foldl (\<lambda>result (key, v). replace_every key v result) original replacements"
  unfolding replaceMultiple_def
  by (induction replacements arbitrary: original) (auto simp: join_split)

lemma replace_every_absent:
  "\<not> sublist token s \<Longrightarrow> replace_every token v s = s"
proof (induction token v s rule: replace_every.induct)
  case (1 token v)
  show ?case by simp
next
  case (2 token v c cs)
  have np: "\<not> prefix token (c # cs)"
    using "2.prems" prefix_imp_sublist by blast
  have "\<not> sublist token cs"
    using "2.prems" by (auto simp: sublist_Cons_right)
  with 2 np show ?case by simp
qed

lemma replace_every_first:
  assumes "token \<noteq> []" and "\<not> sublist token (a @ butlast token)"
  shows "replace_every token v (a @ token @ b) = a @ v @ replace_every token v b"
  using assms(2)
proof (induction a)
  case Nil
  obtain c cs where t: "token = c # cs" using assms(1) by (cases token) auto
  show ?case by (simp add: t)
next
  case (Cons x a)
  have np: "\<not> prefix token (x # a @ token @ b)"
  proof
    assume p: "prefix token (x # a @ token @ b)"
    have tk: "token = butlast token @ [last token]" using assms(1) by simp
    have "length token \<le> length ((x # a) @ butlast token)" by simp
    moreover have "prefix token (((x # a) @ butlast token) @ ([last token] @ b))"
      using p tk by (metis append.assoc append_Cons)
    ultimately have "prefix token ((x # a) @ butlast token)"
      by (metis prefix_length_prefix prefixI)
    then show False using Cons.prems prefix_imp_sublist by blast
  qed
  have "\<not> sublist token (a @ butlast token)"
    using Cons.prems by (auto simp: sublist_Cons_right)
  with Cons.IH np show ?case by simp
qed

lemma replaceMultiple_Cons:
  "replaceMultiple s ((key, v) # rest) = replaceMultiple (join (split s key) v) rest"
  by (simp add: replaceMultiple_def)

text \<open>
  C5. \<open>replaceMultiple\<close> takes the replacements in their order, each on the string the
  earlier ones left. One replacement, with a token that is not empty, leaves a string
  without the token as it is, and in a string with the token it puts the value for the
  first occurrence and goes on in the same way behind it: every occurrence, from the left,
  is replaced (the function \<open>replace_every\<close>). The specification's example holds, also
  with the seven replacements that \<open>runPromptTestCase\<close> passes; and a token that an
  earlier value brought in is replaced when its turn comes.
\<close>

theorem replaceMultiple_sequential:
  "replaceMultiple s [] = s \<and>
   replaceMultiple s ((key, v) # rest) = replaceMultiple (join (split s key) v) rest \<and>
   (key \<noteq> [] \<and> \<not> sublist key s \<longrightarrow> join (split s key) v = s) \<and>
   (key \<noteq> [] \<and> \<not> sublist key (a @ butlast key) \<longrightarrow>
      join (split (a @ key @ b) key) v = a @ v @ join (split b key) v) \<and>
   ((\<forall>(key, v) \<in> set replacements. key \<noteq> []) \<longrightarrow>
      replaceMultiple original replacements =
        foldl (\<lambda>result (key, v). replace_every key v result) original replacements) \<and>
   replaceMultiple ''Hi {name}, age {age}'' [(''{name}'', ''Alice''), (''{age}'', ''5'')] =
     ''Hi Alice, age 5'' \<and>
   replaceMultiple (prompt example_prompt)
     (prompt_fields (number_toString ext_ok) example_testCase) = ''Hi Alice, age 5'' \<and>
   replaceMultiple ''Hi {name}'' [(''{name}'', ''{age}''), (''{age}'', ''5'')] = ''Hi 5''"
proof (intro conjI impI)
  show "replaceMultiple s [] = s"
    by (simp add: replaceMultiple_def)
  show "replaceMultiple s ((key, v) # rest) = replaceMultiple (join (split s key) v) rest"
    by (rule replaceMultiple_Cons)
next
  assume "key \<noteq> [] \<and> \<not> sublist key s"
  then show "join (split s key) v = s"
    by (simp add: join_split replace_every_absent)
next
  assume "key \<noteq> [] \<and> \<not> sublist key (a @ butlast key)"
  then show "join (split (a @ key @ b) key) v = a @ v @ join (split b key) v"
    by (simp add: join_split replace_every_first)
next
  assume "\<forall>(key, v) \<in> set replacements. key \<noteq> []"
  then show "replaceMultiple original replacements =
     foldl (\<lambda>result (key, v). replace_every key v result) original replacements"
    by (rule replaceMultiple_replace_every)
qed (simp_all add: replaceMultiple_def split_def example_defs prompt_fields_def)

theorem replaceMultiple_sequential_witness:
  "list_all (\<lambda>(key, v). key \<noteq> []) [(''{a}'', ''{b}{b}''), (''{b}'', ''x'')] \<and>
   replaceMultiple ''{a}-{b}'' [(''{a}'', ''{b}{b}''), (''{b}'', ''x'')] = ''xx-x'' \<and>
   foldl (\<lambda>result (key, v). replace_every key v result) ''{a}-{b}''
     [(''{a}'', ''{b}{b}''), (''{b}'', ''x'')] = ''xx-x'' \<and>
   \<not> sublist ''{a}'' ''a{b}'' \<and> join (split ''a{b}'' ''{a}'') ''x'' = ''a{b}'' \<and>
   \<not> sublist ''ab'' (''b'' @ butlast ''ab'') \<and> join (split (''b'' @ ''ab'' @ ''abab'') ''ab'') ''-'' = ''b---''"
  using replaceMultiple_sequential
    [where replacements = "[(''{a}'', ''{b}{b}''), (''{b}'', ''x'')]" and original = "''{a}-{b}''"]
    replaceMultiple_sequential [where s = "''a{b}''" and key = "''{a}''" and v = "''x''"]
    replaceMultiple_sequential
    [where key = "''ab''" and v = "''-''" and a = "''b''" and b = "''abab''"]
  by (simp add: replaceMultiple_def split_def sublist_Cons_right)

subsection \<open>The type guard\<close>

lemma TestCase_object_reads:
  "get_prop (TestCase_object tc) ''context'' =
     Inr (JObj [(''tone'', JStr (tone (tc_context tc))),
                (''setting'', JStr (setting (tc_context tc))),
                (''conversationType'', JStr (conversationType (tc_context tc)))])"
  "get_prop (TestCase_object tc) ''bio'' =
     Inr (JObj [(''name'', JStr (name (bio tc))),
                (''age'', JNum (age (bio tc))),
                (''aboutMe'', JStr (aboutMe (bio tc)))])"
  "get_prop (TestCase_object tc) ''utterance'' = Inr (JStr (utterance tc))"
  "get_prop (TestCase_object tc) ''goodCompletions'' = Inr (JArr (map JStr (goodCompletions tc)))"
  by (simp_all add: TestCase_object_def optional_field_def split: option.splits)

lemma TestCase_object_paths:
  "get_path (TestCase_object tc) ''context'' ''tone'' = Inr (JStr (tone (tc_context tc)))"
  "get_path (TestCase_object tc) ''context'' ''setting'' = Inr (JStr (setting (tc_context tc)))"
  "get_path (TestCase_object tc) ''context'' ''conversationType'' =
     Inr (JStr (conversationType (tc_context tc)))"
  "get_path (TestCase_object tc) ''bio'' ''name'' = Inr (JStr (name (bio tc)))"
  "get_path (TestCase_object tc) ''bio'' ''age'' = Inr (JNum (age (bio tc)))"
  "get_path (TestCase_object tc) ''bio'' ''aboutMe'' = Inr (JStr (aboutMe (bio tc)))"
  by (simp_all add: get_path_def TestCase_object_reads)

lemma js_and_Inr: "js_and (Inr v) b = (if truthy v then b else Inr v)"
  by (simp add: js_and_def)

lemma truthy_TestCase_object: "truthy (TestCase_object tc)"
  by (simp add: TestCase_object_def)

text \<open>The type guard on the object of a test case: its first falsy operand, or the last one.\<close>

lemma isTestCase_TestCase_object:
  "isTestCase (TestCase_object tc) =
     Inr (if tone (tc_context tc) = [] then JStr []
          else if setting (tc_context tc) = [] then JStr []
          else if conversationType (tc_context tc) = [] then JStr []
          else if name (bio tc) = [] then JStr []
          else if \<not> number_truthy (age (bio tc)) then JNum (age (bio tc))
          else if aboutMe (bio tc) = [] then JStr []
          else if utterance tc = [] then JStr []
          else JArr (map JStr (goodCompletions tc)))"
  by (simp add: isTestCase_def TestCase_object_reads TestCase_object_paths js_and_Inr
      truthy_TestCase_object)

lemma get_prop_truthy: "truthy v \<Longrightarrow> \<exists>w. get_prop v k = Inr w"
  by (cases v) auto

lemma js_and_returns:
  "a = Inr v \<Longrightarrow> (truthy v \<Longrightarrow> \<exists>w. b = Inr w) \<Longrightarrow> \<exists>w. js_and a b = Inr w"
  by (auto simp: js_and_def)

lemma get_path_returns:
  "get_prop x k1 = Inr c \<Longrightarrow> truthy c \<Longrightarrow> \<exists>w. get_path x k1 k2 = Inr w"
  using get_prop_truthy [of c k2] by (simp add: get_path_def)

text \<open>On no value does the type guard throw: each read follows a check of its receiver.\<close>

lemma isTestCase_returns: "\<exists>v. isTestCase x = Inr v"
proof (cases "truthy x")
  case False
  then show ?thesis by (simp add: isTestCase_def js_and_def)
next
  case x: True
  obtain c where c: "get_prop x ''context'' = Inr c"
    using get_prop_truthy [OF x] by blast
  obtain b where b: "get_prop x ''bio'' = Inr b"
    using get_prop_truthy [OF x] by blast
  obtain u where u: "get_prop x ''utterance'' = Inr u"
    using get_prop_truthy [OF x] by blast
  obtain g where g: "get_prop x ''goodCompletions'' = Inr g"
    using get_prop_truthy [OF x] by blast
  show ?thesis
  proof (cases "truthy c")
    case False
    then show ?thesis using x c by (simp add: isTestCase_def js_and_def)
  next
    case tc: True
    obtain c1 c2 c3 where cs: "get_path x ''context'' ''tone'' = Inr c1"
      "get_path x ''context'' ''setting'' = Inr c2"
      "get_path x ''context'' ''conversationType'' = Inr c3"
      using get_path_returns [OF c tc] by metis
    show ?thesis
    proof (cases "truthy b")
      case False
      then show ?thesis using x c tc cs b by (simp add: isTestCase_def js_and_def)
    next
      case tb: True
      obtain b1 b2 b3 where bs: "get_path x ''bio'' ''name'' = Inr b1"
        "get_path x ''bio'' ''age'' = Inr b2"
        "get_path x ''bio'' ''aboutMe'' = Inr b3"
        using get_path_returns [OF b tb] by metis
      show ?thesis using x c tc cs b tb bs u g by (simp add: isTestCase_def js_and_def)
    qed
  qed
qed

text \<open>
  C10. On the object of a test case, the type guard gives a falsy value as soon as the age
  is \<open>0\<close> or one of the six strings is empty (the value is that operand itself: \<open>0\<close> or
  the empty string), and gives the array of good completions, which is truthy also when it
  is empty, when the age and the six strings are truthy.
\<close>

theorem isTestCase_falsy_fields:
  "(age (bio tc) = Fin 0 \<or> tone (tc_context tc) = [] \<or> setting (tc_context tc) = [] \<or>
    conversationType (tc_context tc) = [] \<or> name (bio tc) = [] \<or> aboutMe (bio tc) = [] \<or>
    utterance tc = []
    \<longrightarrow> (\<exists>v. isTestCase (TestCase_object tc) = Inr v \<and> \<not> truthy v)) \<and>
   (number_truthy (age (bio tc)) \<and> tone (tc_context tc) \<noteq> [] \<and> setting (tc_context tc) \<noteq> [] \<and>
    conversationType (tc_context tc) \<noteq> [] \<and> name (bio tc) \<noteq> [] \<and> aboutMe (bio tc) \<noteq> [] \<and>
    utterance tc \<noteq> [] \<and> goodCompletions tc = []
    \<longrightarrow> isTestCase (TestCase_object tc) = Inr (JArr []) \<and> truthy (JArr []))"
  unfolding isTestCase_TestCase_object by auto

theorem isTestCase_falsy_fields_witness:
  "age (bio (example_testCase\<lparr>bio := (bio example_testCase)\<lparr>age := Fin 0\<rparr>\<rparr>)) = Fin 0 \<and>
   isTestCase (TestCase_object (example_testCase\<lparr>bio := (bio example_testCase)\<lparr>age := Fin 0\<rparr>\<rparr>))
     = Inr (JNum (Fin 0)) \<and>
   isTestCase (TestCase_object (example_testCase\<lparr>utterance := []\<rparr>)) = Inr (JStr []) \<and>
   goodCompletions (example_testCase\<lparr>goodCompletions := []\<rparr>) = [] \<and>
   isTestCase (TestCase_object (example_testCase\<lparr>goodCompletions := []\<rparr>)) = Inr (JArr [])"
  using isTestCase_falsy_fields [of "example_testCase\<lparr>bio := (bio example_testCase)\<lparr>age := Fin 0\<rparr>\<rparr>"]
    isTestCase_falsy_fields [of "example_testCase\<lparr>goodCompletions := []\<rparr>"]
  by (simp add: isTestCase_TestCase_object example_testCase_def)

subsection \<open>Rounding\<close>

text \<open>Rounding to the nearest integer: the error, the integers, and the symmetry.\<close>

lemma round_even_error: "\<bar>of_int (round_even z) - z\<bar> \<le> 1 / 2"
  unfolding round_even_def Let_def by (auto; linarith)

lemma round_even_int: "round_even (of_int k) = k"
  by (simp add: round_even_def)



lemma round_even_tie: "even m \<Longrightarrow> round_even (of_int m + 1 / 2) = m"
proof -
  assume "even m"
  have "\<lfloor>real_of_int m + 1 / 2\<rfloor> = m" by (rule floor_unique) simp_all
  with \<open>even m\<close> show ?thesis by (simp add: round_even_def Let_def)
qed

lemma round_even_nonneg: "0 \<le> z \<Longrightarrow> 0 \<le> round_even z"
proof -
  assume "0 \<le> z"
  have "\<bar>of_int (round_even z) - z\<bar> \<le> 1 / 2" by (rule round_even_error)
  with \<open>0 \<le> z\<close> have "real_of_int (- 1) < real_of_int (round_even z)" by linarith
  then have "- 1 < round_even z" by (simp only: of_int_less_iff)
  then show ?thesis by simp
qed

lemma round_even_abs_le:
  assumes "\<bar>z\<bar> \<le> of_int n"
  shows "\<bar>round_even z\<bar> \<le> n"
proof -
  have "\<bar>of_int (round_even z) - z\<bar> \<le> 1 / 2" by (rule round_even_error)
  then have "\<bar>real_of_int (round_even z)\<bar> < of_int n + 1" using assms by linarith
  then have "real_of_int \<bar>round_even z\<bar> < real_of_int (n + 1)" by simp
  then have "\<bar>round_even z\<bar> < n + 1" by (simp only: of_int_less_iff)
  then show ?thesis by simp
qed

lemma round_even_abs_ge:
  assumes "of_int n \<le> \<bar>z\<bar>"
  shows "n \<le> \<bar>round_even z\<bar>"
proof -
  have "\<bar>of_int (round_even z) - z\<bar> \<le> 1 / 2" by (rule round_even_error)
  then have "of_int n - 1 < \<bar>real_of_int (round_even z)\<bar>" using assms by linarith
  then have "real_of_int (n - 1) < real_of_int \<bar>round_even z\<bar>" by simp
  then have "n - 1 < \<bar>round_even z\<bar>" by (simp only: of_int_less_iff)
  then show ?thesis by simp
qed


text \<open>The exponent and the spacing of the doubles.\<close>

lemma exponent_normal:
  assumes "- 1022 \<le> e" and "2 powr of_int e \<le> \<bar>x\<bar>" and "\<bar>x\<bar> < 2 powr of_int (e + 1)"
  shows "exponent x = e"
proof -
  have "(0::real) < 2 powr of_int e" by simp
  then have "0 < \<bar>x\<bar>" using assms(2) by (rule less_le_trans)
  then have "\<lfloor>log 2 \<bar>x\<bar>\<rfloor> = e"
    using assms(2,3) by (simp add: floor_log_eq_powr_iff)
  then show ?thesis using assms(1) by (simp add: exponent_def)
qed




lemma exponent_lower:
  "x \<noteq> 0 \<Longrightarrow> - 1022 < exponent x \<Longrightarrow> 2 powr of_int (exponent x) \<le> \<bar>x\<bar>"
proof -
  assume x: "x \<noteq> 0" and e: "- 1022 < exponent x"
  then have "exponent x = \<lfloor>log 2 \<bar>x\<bar>\<rfloor>" by (simp add: exponent_def max_def split: if_splits)
  then show ?thesis
    using x floor_log_eq_powr_iff [of "\<bar>x\<bar>" 2 "\<lfloor>log 2 \<bar>x\<bar>\<rfloor>"] by simp
qed


lemma quantum_pos: "0 < quantum x"
  by (simp add: quantum_def)



lemma quantum_eq: "exponent x = exponent y \<Longrightarrow> quantum x = quantum y"
  by (simp add: quantum_def)

text \<open>
  Rounding to a double. In the normal range the relative error is at most \<open>2\<close> to the
  power \<open>-53\<close>; a double rounds to itself, so every result of an operation is a double;
  rounding commutes with negation and keeps the sign.
\<close>

lemma double_round_cases:
  assumes "x \<noteq> 0"
  defines "k \<equiv> round_even (x / quantum x)"
  shows "double_round x =
     (if k = 0 then (if x < 0 then NegZero else Fin 0)
      else if huge \<le> \<bar>quantum x * of_int k\<bar> then (if x < 0 then NInf else PInf)
      else Fin (quantum x * of_int k))"
  using assms(1) by (simp add: double_round_def Let_def k_def)




lemma double_round_exact:
  assumes "y / quantum y = of_int k" and "\<not> huge \<le> \<bar>y\<bar>"
  shows "double_round y = Fin y"
proof (cases "y = 0")
  case True
  then show ?thesis by (simp add: double_round_def)
next
  case False
  have r: "round_even (y / quantum y) = k"
    by (simp only: assms(1) round_even_int)
  have q: "quantum y * of_int k = y"
    using assms(1) quantum_pos [of y] by (simp add: field_simps)
  have "k \<noteq> 0" using q False by auto
  then show ?thesis
    unfolding double_round_cases [OF False] r q using assms(2) by simp
qed



lemma double_round_not_negative: "0 \<le> x \<Longrightarrow> \<not> negative (double_round x)"
proof (cases "x = 0")
  case True
  then show ?thesis by (simp add: double_round_def)
next
  case False
  assume "0 \<le> x"
  then have "0 \<le> x / quantum x" using quantum_pos [of x] by simp
  then have "0 \<le> round_even (x / quantum x)" by (rule round_even_nonneg)
  then have "0 \<le> quantum x * of_int (round_even (x / quantum x))"
    using quantum_pos [of x] by simp
  then show ?thesis
    unfolding double_round_cases [OF False] using \<open>0 \<le> x\<close> by auto
qed

lemma double_round_eval:
  assumes "- 1022 \<le> e" and "e \<le> 1022" and q: "q = 2 powr of_int (e - 52)"
    and lo: "q * 2 ^ 52 \<le> \<bar>x\<bar>" and hi: "\<bar>x\<bar> < q * 2 ^ 53"
    and k: "round_even (x / q) = k"
  shows "double_round x = Fin (q * of_int k)"
proof -
  have q0: "0 < q" by (simp add: q)
  have q52: "q * 2 ^ 52 = 2 powr of_int e" by (simp add: q powr_diff)
  have q53: "q * 2 ^ 53 = 2 powr of_int (e + 1)" using q52 by (simp add: powr_add)
  have e: "exponent x = e"
    using assms(1) lo hi unfolding q52 q53 by (rule exponent_normal)
  then have qx: "quantum x = q" by (simp add: quantum_def q)
  have "0 < q * 2 ^ 52" using q0 by simp
  then have "0 < \<bar>x\<bar>" using lo by (rule less_le_trans)
  then have x: "x \<noteq> 0" by simp
  have "of_int (2 ^ 52) \<le> \<bar>x / q\<bar>" using lo q0 by (simp add: field_simps)
  then have "2 ^ 52 \<le> \<bar>round_even (x / q)\<bar>" by (rule round_even_abs_ge)
  then have k0: "k \<noteq> 0" using k by auto
  have "\<bar>x / q\<bar> \<le> of_int (2 ^ 53)" using hi q0 by (simp add: field_simps)
  then have "\<bar>round_even (x / q)\<bar> \<le> 2 ^ 53" by (rule round_even_abs_le)
  then have "real_of_int \<bar>k\<bar> \<le> 2 ^ 53"
    unfolding k by (metis of_int_le_iff of_int_numeral of_int_power)
  then have "\<bar>q * of_int k\<bar> \<le> q * 2 ^ 53"
    using q0 by (simp add: abs_mult)
  also have "\<dots> \<le> 2 powr 1023"
    unfolding q53 using assms(2) by (intro powr_mono) simp_all
  also have "\<dots> = 2 ^ 1023" by (rule powr_numeral) simp
  also have "\<dots> < 2 ^ 1024" by (intro power_strict_increasing) simp_all
  finally have fin: "\<not> huge \<le> \<bar>q * of_int k\<bar>" by (simp add: huge_def)
  show ?thesis
    unfolding double_round_cases [OF x] qx k using k0 fin by simp
qed



lemma representable_int:
  assumes "\<bar>n\<bar> \<le> 2 ^ 53"
  shows "representable (of_int n)"
proof (cases "n = 0")
  case True
  then show ?thesis by (simp add: representable_def double_round_def)
next
  case False
  define x :: real where "x = of_int n"
  define e where "e = exponent x"
  have x0: "x \<noteq> 0" using False by (simp add: x_def)
  have "1 \<le> \<bar>n\<bar>" using False by simp
  then have "real_of_int 1 \<le> real_of_int \<bar>n\<bar>" by (simp only: of_int_le_iff)
  then have x1: "1 \<le> \<bar>x\<bar>" by (simp add: x_def)
  have "real_of_int \<bar>n\<bar> \<le> real_of_int (2 ^ 53)" using assms by (simp only: of_int_le_iff)
  then have x53: "\<bar>x\<bar> \<le> 2 ^ 53" by (simp add: x_def)
  have "0 \<le> log 2 \<bar>x\<bar>" using x1 by simp
  then have "0 \<le> \<lfloor>log 2 \<bar>x\<bar>\<rfloor>" by simp
  then have el: "e = \<lfloor>log 2 \<bar>x\<bar>\<rfloor>" and e0: "0 \<le> e" by (simp_all add: e_def exponent_def)
  have "(2::real) powr 53 = 2 ^ 53" by (simp add: powr_numeral)
  then have "\<bar>x\<bar> \<le> 2 powr 53" using x53 by simp
  then have "log 2 \<bar>x\<bar> \<le> 53" using x0 by (simp add: log_le_iff)
  then have e53: "e \<le> 53" unfolding el by (simp add: floor_le_iff)
  have fin: "\<not> huge \<le> \<bar>x\<bar>"
  proof -
    have "(2::real) ^ 53 < 2 ^ 1024" by (intro power_strict_increasing) simp_all
    with x53 show ?thesis by (simp add: huge_def)
  qed
  show ?thesis
  proof (cases "e \<le> 52")
    case True
    define j where "j = nat (52 - e)"
    have "quantum x = 2 powr (- real j)"
      using True by (simp add: quantum_def e_def [symmetric] j_def)
    also have "\<dots> = 1 / 2 ^ j" by (simp add: powr_minus powr_realpow divide_inverse)
    finally have "x / quantum x = of_int (n * 2 ^ j)" by (simp add: x_def)
    then have "double_round x = Fin x" using fin by (rule double_round_exact)
    then show ?thesis by (simp add: representable_def x_def)
  next
    case False
    with e53 have e: "e = 53" by simp
    have "2 powr of_int (exponent x) \<le> \<bar>x\<bar>"
      using x0 e by (intro exponent_lower) (simp_all add: e_def)
    then have "2 ^ 53 \<le> \<bar>x\<bar>" using e by (simp add: e_def)
    with x53 have "\<bar>x\<bar> = 2 ^ 53" by simp
    then have "real_of_int \<bar>n\<bar> = real_of_int (2 ^ 53)" by (simp add: x_def)
    then have "\<bar>n\<bar> = 2 ^ 53" by (simp only: of_int_eq_iff)
    then have "even n" by (metis abs_dvd_iff dvd_abs_iff even_numeral even_power zero_less_numeral)
    then have half: "real_of_int (n div 2) = of_int n / 2" by auto
    have "quantum x = 2" using e by (simp add: quantum_def e_def [symmetric])
    then have "x / quantum x = of_int (n div 2)" by (simp add: half x_def)
    then have "double_round x = Fin x" using fin by (rule double_round_exact)
    then show ?thesis by (simp add: representable_def x_def)
  qed
qed


lemma representable_0: "representable 0"
  by (simp add: representable_def double_round_def)

lemma representable_1: "representable 1"
  using representable_int [of 1] by simp

lemma representable_numeral: "numeral n \<le> (2 :: int) ^ 53 \<Longrightarrow> representable (numeral n)"
  using representable_int [of "numeral n"] by simp

lemma double_round_0: "double_round 0 = Fin 0"
  by (simp add: double_round_def)

lemma double_round_1: "double_round 1 = Fin 1"
  using representable_int [of 1] by (simp add: representable_def)

lemma double_round_numeral:
  "numeral n \<le> (2 :: int) ^ 53 \<Longrightarrow> double_round (numeral n) = Fin (numeral n)"
  using representable_int [of "numeral n"] by (simp add: representable_def)

lemma double_round_neg_numeral:
  "numeral n \<le> (2 :: int) ^ 53 \<Longrightarrow> double_round (- numeral n) = Fin (- numeral n)"
  using representable_int [of "- numeral n"] by (simp add: representable_def)

text \<open>The operations on finite numbers, and on signs.\<close>

lemma js_add_Fin: "js_add (Fin a) (Fin b) = double_round (a + b)"
  by (simp add: js_add_def)

lemma js_mul_Fin:
  "js_mul (Fin a) (Fin b) =
     (if a = 0 \<or> b = 0 then signed_zero ((a < 0) \<noteq> (b < 0)) else double_round (a * b))"
  by (simp add: js_mul_def)

lemma js_div_Fin:
  "js_div (Fin a) (Fin b) =
     (if b = 0 then (if a = 0 then NaN else signed_infinity ((a < 0) \<noteq> (b < 0)))
      else if a = 0 then signed_zero ((a < 0) \<noteq> (b < 0))
      else double_round (a / b))"
  by (simp add: js_div_def)

lemma js_add_commute: "js_add a b = js_add b a"
  by (cases a; cases b) (simp_all add: js_add_def add.commute)





lemma not_negative_square: "\<not> negative (js_mul a a)"
  by (cases a) (simp_all add: js_mul_def signed_zero_def signed_infinity_def
      double_round_not_negative)

lemma not_negative_js_add:
  "\<not> negative a \<Longrightarrow> \<not> negative b \<Longrightarrow> \<not> negative (js_add a b)"
  by (cases a; cases b) (simp_all add: js_add_def double_round_not_negative)

lemma js_add_zero_right: "is_double p \<Longrightarrow> p \<noteq> NegZero \<Longrightarrow> js_add p (Fin 0) = p"
  by (cases p) (simp_all add: js_add_def is_double_def representable_def)

lemma js_add_zero_left: "is_double p \<Longrightarrow> p \<noteq> NegZero \<Longrightarrow> js_add (Fin 0) p = p"
  by (simp add: js_add_commute [of "Fin 0"] js_add_zero_right)

lemma js_div_one: "is_double x \<Longrightarrow> x \<noteq> NegZero \<Longrightarrow> js_div x (Fin 1) = x"
  by (cases x)
     (simp_all add: js_div_def signed_zero_def signed_infinity_def is_double_def
        representable_def)

lemma js_div_exact:
  "0 < n \<Longrightarrow> representable (s / n) \<Longrightarrow> js_div (Fin s) (Fin n) = Fin (s / n)"
  by (simp add: js_div_Fin signed_zero_def representable_def)





lemma double_round_tie: "double_round 9007199254740993 = Fin 9007199254740992"
proof -
  have "round_even (of_int 4503599627370496 + 1 / 2) = 4503599627370496"
    by (rule round_even_tie) simp
  then have k: "round_even (9007199254740993 / 2) = 4503599627370496" by simp
  have "double_round 9007199254740993 = Fin (2 * of_int 4503599627370496)"
    using _ _ _ _ _ k by (rule double_round_eval [where e = 53]) simp_all
  then show ?thesis by simp
qed




subsection \<open>Vector scoring\<close>

lemma reduce_step:
  "length vector = length acc \<Longrightarrow>
   map (plus_at vector) (zip acc [0..<length acc]) = map (\<lambda>i. js_add (acc ! i) (vector ! i)) [0..<length acc]"
  by (rule nth_equalityI) (simp_all add: plus_at_def)

lemma reduce_fold:
  "\<forall>v \<in> set vs. length v = length acc \<Longrightarrow>
   foldl (\<lambda>acc vector. map (plus_at vector) (zip acc [0..<length acc])) acc vs =
   map (\<lambda>i. foldl js_add (acc ! i) (map (\<lambda>v. v ! i) vs)) [0..<length acc]"
proof (induction vs arbitrary: acc)
  case Nil
  show ?case by (rule nth_equalityI) simp_all
next
  case (Cons v vs)
  define acc' where "acc' = map (\<lambda>i. js_add (acc ! i) (v ! i)) [0..<length acc]"
  have len: "length v = length acc" using Cons.prems by simp
  have step: "map (plus_at v) (zip acc [0..<length acc]) = acc'"
    unfolding acc'_def using len by (rule reduce_step)
  have len': "length acc' = length acc" by (simp add: acc'_def)
  have "foldl (\<lambda>acc vector. map (plus_at vector) (zip acc [0..<length acc])) acc' vs =
      map (\<lambda>i. foldl js_add (acc' ! i) (map (\<lambda>v. v ! i) vs)) [0..<length acc']"
    using Cons.prems by (intro Cons.IH) (simp add: len')
  also have "\<dots> = map (\<lambda>i. foldl js_add (acc ! i) (map (\<lambda>v. v ! i) (v # vs))) [0..<length acc]"
    unfolding len' by (rule map_cong) (simp_all add: acc'_def)
  finally show ?case using step by simp
qed

lemma averageOfVectors_fold:
  assumes "vs \<noteq> []" and "\<forall>v \<in> set vs. length v = d"
  shows "averageOfVectors vs =
     Inr (map (\<lambda>i. js_div (foldl js_add (Fin 0) (map (\<lambda>v. v ! i) vs)) (Fin (real (length vs))))
            [0..<d])"
proof -
  obtain v0 rest where vs: "vs = v0 # rest" using assms(1) by (cases vs) auto
  have d: "length v0 = d" using assms(2) vs by simp
  have "foldl (\<lambda>acc vector. map (plus_at vector) (zip acc [0..<length acc]))
      (replicate d (Fin 0)) vs =
      map (\<lambda>i. foldl js_add (replicate d (Fin 0) ! i) (map (\<lambda>v. v ! i) vs))
        [0..<length (replicate d (Fin 0))]"
    using assms(2) by (intro reduce_fold) simp
  also have "\<dots> = map (\<lambda>i. foldl js_add (Fin 0) (map (\<lambda>v. v ! i) vs)) [0..<d]"
    by (rule nth_equalityI) simp_all
  finally show ?thesis
    unfolding averageOfVectors_def using vs d by (simp add: comp_def)
qed

lemma fold_exact:
  "\<forall>k \<le> length xs. representable (a + sum_list (take k xs)) \<Longrightarrow>
   foldl js_add (Fin a) (map Fin xs) = Fin (a + sum_list xs)"
proof (induction xs arbitrary: a)
  case Nil
  show ?case by simp
next
  case (Cons x xs)
  have "representable (a + sum_list (take 1 (x # xs)))"
    by (rule Cons.prems [rule_format, of 1]) simp
  then have step: "js_add (Fin a) (Fin x) = Fin (a + x)"
    by (simp add: js_add_Fin representable_def)
  have "\<forall>k \<le> length xs. representable (a + x + sum_list (take k xs))"
  proof (intro allI impI)
    fix k assume "k \<le> length xs"
    then have "representable (a + sum_list (take (Suc k) (x # xs)))"
      by (intro Cons.prems [rule_format, of "Suc k"]) simp
    then show "representable (a + x + sum_list (take k xs))" by (simp add: add.assoc)
  qed
  then have "foldl js_add (Fin (a + x)) (map Fin xs) = Fin (a + x + sum_list xs)"
    by (rule Cons.IH)
  then show ?case using step by (simp add: add.assoc)
qed

lemma averageOfVectors_exact:
  assumes "xs \<noteq> []" and "\<forall>v \<in> set xs. length v = d"
    and sums: "\<forall>i < d. \<forall>k \<le> length xs. representable (\<Sum>v\<leftarrow>take k xs. v ! i)"
    and quot: "\<forall>i < d. representable ((\<Sum>v\<leftarrow>xs. v ! i) / real (length xs))"
  shows "averageOfVectors (map (map Fin) xs) =
     Inr (map (\<lambda>i. Fin ((\<Sum>v\<leftarrow>xs. v ! i) / real (length xs))) [0..<d])"
proof -
  have n: "0 < real (length xs)" using assms(1) by simp
  have col: "map (\<lambda>v. v ! i) (map (map Fin) xs) = map Fin (map (\<lambda>v. v ! i) xs)" if "i < d" for i
    using that assms(2) by simp
  have entry: "js_div (foldl js_add (Fin 0) (map (\<lambda>v. v ! i) (map (map Fin) xs)))
        (Fin (real (length (map (map Fin) xs)))) =
      Fin ((\<Sum>v\<leftarrow>xs. v ! i) / real (length xs))" if "i < d" for i
  proof -
    have "\<forall>k \<le> length (map (\<lambda>v. v ! i) xs).
        representable (0 + sum_list (take k (map (\<lambda>v. v ! i) xs)))"
      using sums that by (simp add: take_map)
    then have "foldl js_add (Fin 0) (map Fin (map (\<lambda>v. v ! i) xs)) =
        Fin (0 + sum_list (map (\<lambda>v. v ! i) xs))"
      by (rule fold_exact)
    then have f: "foldl js_add (Fin 0) (map Fin (map (\<lambda>v. v ! i) xs)) =
        Fin (sum_list (map (\<lambda>v. v ! i) xs))"
      by (simp only: add_0)
    show ?thesis
      unfolding col [OF that] f length_map using quot that n by (simp add: js_div_exact)
  qed
  have "averageOfVectors (map (map Fin) xs) =
     Inr (map (\<lambda>i. js_div (foldl js_add (Fin 0) (map (\<lambda>v. v ! i) (map (map Fin) xs)))
                     (Fin (real (length (map (map Fin) xs))))) [0..<d])"
    using assms(1,2) by (intro averageOfVectors_fold) simp_all
  also have "\<dots> = Inr (map (\<lambda>i. Fin ((\<Sum>v\<leftarrow>xs. v ! i) / real (length xs))) [0..<d])"
    using entry by simp
  finally show ?thesis .
qed

lemma averageOfVectors_single:
  assumes "list_all is_double v"
  shows "averageOfVectors [v] = Inr (map (\<lambda>x. if x = NegZero then Fin 0 else x) v)"
proof -
  have entry: "js_div (js_add (Fin 0) x) (Fin 1) = (if x = NegZero then Fin 0 else x)"
    if "is_double x" for x
  proof (cases "x = NegZero")
    case True
    then show ?thesis
      by (simp add: js_add_def double_round_0 js_div_def signed_zero_def)
  next
    case False
    then show ?thesis using that by (simp add: js_add_zero_left js_div_one)
  qed
  have "averageOfVectors [v] =
      Inr (map (\<lambda>i. js_div (foldl js_add (Fin 0) (map (\<lambda>v. v ! i) [v])) (Fin (real (length [v]))))
            [0..<length v])"
    by (intro averageOfVectors_fold) simp_all
  also have "\<dots> = Inr (map (\<lambda>x. if x = NegZero then Fin 0 else x) v)"
    using assms by (auto intro!: nth_equalityI simp: entry list_all_length)
  finally show ?thesis .
qed

lemma averageOfVectors_rounds:
  "averageOfVectors [[Fin 9007199254740992], [Fin 1]] = Inr [Fin 4503599627370496]"
proof -
  have "js_add (Fin 9007199254740992) (Fin 1) = Fin 9007199254740992"
    by (simp add: js_add_Fin double_round_tie)
  moreover have "js_add (Fin 0) (Fin 9007199254740992) = Fin 9007199254740992"
    by (simp add: js_add_Fin double_round_numeral)
  moreover have "js_div (Fin 9007199254740992) (Fin 2) = Fin 4503599627370496"
    by (simp add: js_div_Fin double_round_numeral)
  ultimately show ?thesis
    by (simp add: averageOfVectors_def plus_at_def)
qed

lemma all_less_2: "(\<forall>i < (2::nat). P i) = (P 0 \<and> P 1)"
  by (auto simp: less_Suc_eq numeral_2_eq_2)

lemma all_le_Suc: "(\<forall>k \<le> Suc n. P k) = ((\<forall>k \<le> n. P k) \<and> P (Suc n))"
  by (auto simp: le_Suc_eq)

text \<open>
  C6 (amended). On a non-empty list of vectors of one length, each entry of the result of
  \<open>averageOfVectors\<close> is computed in floating point: the entries at that index are
  added from left to right, starting from \<open>0\<close>, every sum rounded, and the last sum is
  divided by the number of vectors and rounded. It is the arithmetic mean when each of these
  sums and the quotient is a double. The average of a single vector of doubles is that
  vector with \<open>-0\<close> replaced by \<open>0\<close>.
\<close>

theorem averageOfVectors_floating_point:
  "(vs \<noteq> [] \<and> (\<forall>v \<in> set vs. length v = d) \<longrightarrow>
      averageOfVectors vs =
        Inr (map (\<lambda>i. js_div (foldl js_add (Fin 0) (map (\<lambda>v. v ! i) vs))
                        (Fin (real (length vs)))) [0..<d])) \<and>
   (xs \<noteq> [] \<and> (\<forall>v \<in> set xs. length v = d) \<and>
    (\<forall>i < d. \<forall>k \<le> length xs. representable (\<Sum>v\<leftarrow>take k xs. v ! i)) \<and>
    (\<forall>i < d. representable ((\<Sum>v\<leftarrow>xs. v ! i) / real (length xs))) \<longrightarrow>
      averageOfVectors (map (map Fin) xs) =
        Inr (map (\<lambda>i. Fin ((\<Sum>v\<leftarrow>xs. v ! i) / real (length xs))) [0..<d])) \<and>
   (list_all is_double v \<longrightarrow>
      averageOfVectors [v] = Inr (map (\<lambda>x. if x = NegZero then Fin 0 else x) v))"
  using averageOfVectors_fold [of vs d] averageOfVectors_exact [of xs d]
    averageOfVectors_single [of v]
  by blast

theorem averageOfVectors_floating_point_witness:
  "[[Fin 1, Fin 2], [Fin 3, Fin 6]] \<noteq> [] \<and>
   list_all (\<lambda>v. length v = 2) [[1, 2], [3, 6 :: real]] \<and>
   list_all representable [0, 1, 1 + 3, 0, 2, 2 + 6, (1 + 3) / 2, (2 + 6) / 2] \<and>
   averageOfVectors [[Fin 1, Fin 2], [Fin 3, Fin 6]] = Inr [Fin 2, Fin 4] \<and>
   list_all is_double [Fin 1, NegZero, PInf] \<and>
   averageOfVectors [[Fin 1, NegZero, PInf]] = Inr [Fin 1, Fin 0, PInf]"
  using averageOfVectors_floating_point
    [of "[[Fin 1, Fin 2], [Fin 3, Fin 6]]" 2 "[[1, 2], [3, 6]]" "[Fin 1, NegZero, PInf]"]
  by (simp add: all_less_2 all_le_Suc upt_conv_Cons representable_0 representable_1
      representable_numeral is_double_def js_add_Fin js_div_Fin double_round_1
      double_round_numeral)

text \<open>
  C6 as stated fails: the mean of \<open>2 ^ 53\<close> and \<open>1\<close> is not a double, and already
  their sum is rounded; and the average of the single vector \<open>[-0]\<close> is \<open>[0]\<close>.
\<close>

theorem averageOfVectors_mean_counterexample:
  "list_all is_double [Fin 9007199254740992, Fin 1] \<and>
   averageOfVectors [[Fin 9007199254740992], [Fin 1]] = Inr [Fin 4503599627370496] \<and>
   (9007199254740992 + 1) / 2 \<noteq> (4503599627370496 :: real) \<and>
   averageOfVectors [[NegZero]] = Inr [Fin 0]"
  using averageOfVectors_rounds averageOfVectors_single [of "[NegZero]"]
  by (simp add: is_double_def representable_1 representable_numeral)




lemma dot_fold_not_negative:
  "\<not> negative c \<Longrightarrow> \<not> negative (foldl (\<lambda>c (a, b). js_add c (js_mul a b)) c (zip xs xs))"
  by (induction xs arbitrary: c) (simp_all add: not_negative_js_add not_negative_square)












subsection \<open>Retrying\<close>

lemma failed_attempts_0: "failed_attempts t ev d 0 = t"
  by (simp add: failed_attempts_def)

lemma failed_attempts_Suc:
  "failed_attempts t ev d (Suc k) = failed_attempts (t @ [ev, Wait d]) ev d k"
  by (simp add: failed_attempts_def)

lemma request_apply: "request f ev t = (f t, t @ [ev])"
  by (simp add: request_def)

lemma retry_first_success:
  "operation t = (Inr v, t') \<Longrightarrow> retryOnFailure operation n d t = (Inr v, t')"
  by (simp add: retryOnFailure.simps)

lemma retry_last_failure:
  "operation t = (Inl e, t') \<Longrightarrow> n \<le> 1 \<Longrightarrow> retryOnFailure operation n d t = (Inl e, t')"
  by (simp add: retryOnFailure.simps)

lemma retry_again:
  "operation t = (Inl e, t') \<Longrightarrow> 1 < n \<Longrightarrow>
   retryOnFailure operation n d t = retryOnFailure operation (n - 1) d (t' @ [Wait d])"
  by (simp add: retryOnFailure.simps)

lemma retry_success_after:
  "k < n \<Longrightarrow> (\<forall>j<k. isl (f (failed_attempts t ev d j))) \<Longrightarrow>
   f (failed_attempts t ev d k) = Inr v \<Longrightarrow>
   retryOnFailure (request f ev) n d t = (Inr v, failed_attempts t ev d k @ [ev])"
proof (induction k arbitrary: t n)
  case 0
  then show ?case
    by (simp add: retry_first_success request_apply failed_attempts_0)
next
  case (Suc k)
  from Suc.prems(2) have "isl (f (failed_attempts t ev d 0))" by blast
  then obtain e where e: "f t = Inl e"
    by (auto simp: failed_attempts_0 isl_def)
  have n: "1 < n" using Suc.prems(1) by simp
  have step: "retryOnFailure (request f ev) n d t =
      retryOnFailure (request f ev) (n - 1) d (t @ [ev, Wait d])"
    using retry_again [of "request f ev" t e "t @ [ev]" n d] e n
    by (simp add: request_apply)
  have "retryOnFailure (request f ev) (n - 1) d (t @ [ev, Wait d]) =
      (Inr v, failed_attempts (t @ [ev, Wait d]) ev d k @ [ev])"
  proof (rule Suc.IH)
    show "k < n - 1" using Suc.prems(1) by simp
    show "\<forall>j<k. isl (f (failed_attempts (t @ [ev, Wait d]) ev d j))"
      using Suc.prems(2) by (auto simp: failed_attempts_Suc [symmetric])
    show "f (failed_attempts (t @ [ev, Wait d]) ev d k) = Inr v"
      using Suc.prems(3) by (simp add: failed_attempts_Suc)
  qed
  with step show ?case by (simp add: failed_attempts_Suc)
qed

lemma retry_exhausted:
  "0 < n \<Longrightarrow> (\<forall>j<n. isl (f (failed_attempts t ev d j))) \<Longrightarrow>
   retryOnFailure (request f ev) n d t =
     (f (failed_attempts t ev d (n - 1)), failed_attempts t ev d (n - 1) @ [ev])"
proof (induction n arbitrary: t)
  case 0
  then show ?case by simp
next
  case (Suc n)
  from Suc.prems(2) have "isl (f (failed_attempts t ev d 0))" by blast
  then obtain e where e: "f t = Inl e"
    by (auto simp: failed_attempts_0 isl_def)
  show ?case
  proof (cases "n = 0")
    case True
    have "request f ev t = (Inl e, t @ [ev])" using e by (simp add: request_apply)
    from retry_last_failure [of "request f ev" t e "t @ [ev]" "Suc n" d] this True e
    show ?thesis
      by (simp add: failed_attempts_0)
  next
    case False
    then have step: "retryOnFailure (request f ev) (Suc n) d t =
        retryOnFailure (request f ev) n d (t @ [ev, Wait d])"
      using retry_again [of "request f ev" t e "t @ [ev]" "Suc n" d] e
      by (simp add: request_apply)
    have "retryOnFailure (request f ev) n d (t @ [ev, Wait d]) =
        (f (failed_attempts (t @ [ev, Wait d]) ev d (n - 1)),
         failed_attempts (t @ [ev, Wait d]) ev d (n - 1) @ [ev])"
    proof (rule Suc.IH)
      show "0 < n" using False by simp
      show "\<forall>j<n. isl (f (failed_attempts (t @ [ev, Wait d]) ev d j))"
        using Suc.prems(2) by (auto simp: failed_attempts_Suc [symmetric])
    qed
    moreover have "failed_attempts (t @ [ev, Wait d]) ev d (n - 1) = failed_attempts t ev d n"
      using False failed_attempts_Suc [of t ev d "n - 1"] by simp
    ultimately show ?thesis using step by simp
  qed
qed

text \<open>Every run of a retried request is one of the two.\<close>

lemma retry_cases:
  "\<exists>k. k < max n 1 \<and> (\<forall>j<k. isl (f (failed_attempts t ev d j))) \<and>
       retryOnFailure (request f ev) n d t =
         (f (failed_attempts t ev d k), failed_attempts t ev d k @ [ev]) \<and>
       (isl (f (failed_attempts t ev d k)) \<longrightarrow> Suc k = max n 1)"
proof (induction n arbitrary: t)
  case 0
  show ?case
    by (rule exI [of _ 0])
       (auto simp: failed_attempts_0 retryOnFailure.simps request_apply split: sum.splits)
next
  case (Suc n)
  show ?case
  proof (cases "f t")
    case (Inr v)
    then show ?thesis
      by (intro exI [of _ 0]) (auto simp: failed_attempts_0 retryOnFailure.simps request_apply)
  next
    case (Inl e)
    show ?thesis
    proof (cases "n = 0")
      case True
      with Inl show ?thesis
        by (intro exI [of _ 0]) (auto simp: failed_attempts_0 retryOnFailure.simps request_apply)
    next
      case False
      from Suc.IH [of "t @ [ev, Wait d]"] obtain k where k:
        "k < max n 1" "\<forall>j<k. isl (f (failed_attempts (t @ [ev, Wait d]) ev d j))"
        "retryOnFailure (request f ev) n d (t @ [ev, Wait d]) =
         (f (failed_attempts (t @ [ev, Wait d]) ev d k),
          failed_attempts (t @ [ev, Wait d]) ev d k @ [ev])"
        "isl (f (failed_attempts (t @ [ev, Wait d]) ev d k)) \<longrightarrow> Suc k = max n 1"
        by blast
      have step: "retryOnFailure (request f ev) (Suc n) d t =
          retryOnFailure (request f ev) n d (t @ [ev, Wait d])"
        using retry_again [of "request f ev" t e "t @ [ev]" "Suc n" d] Inl False
        by (simp add: request_apply)
      have "\<forall>j<Suc k. isl (f (failed_attempts t ev d j))"
      proof (intro allI impI)
        fix j assume "j < Suc k"
        show "isl (f (failed_attempts t ev d j))"
        proof (cases j)
          case 0
          then show ?thesis using Inl by (simp add: failed_attempts_0)
        next
          case (Suc i)
          then show ?thesis using k(2) \<open>j < Suc k\<close> by (simp add: failed_attempts_Suc)
        qed
      qed
      then show ?thesis
        using k step False by (intro exI [of _ "Suc k"]) (auto simp: failed_attempts_Suc)
    qed
  qed
qed

lemma retry_request_outcome:
  "\<exists>xs. set xs \<subseteq> {ev, Wait d} \<and>
        retryOnFailure (request f ev) n d t = (f (t @ xs), t @ xs @ [ev])"
proof -
  from retry_cases [of n f t ev d] obtain k where
    "retryOnFailure (request f ev) n d t =
       (f (failed_attempts t ev d k), failed_attempts t ev d k @ [ev])"
    by blast
  then show ?thesis
    by (intro exI [of _ "concat (replicate k [ev, Wait d])"])
       (auto simp: failed_attempts_def)
qed

subsection \<open>The requests of one evaluation\<close>

lemma steps_of_set:
  "set xs \<subseteq> {GptCall a b c d, Wait n} \<Longrightarrow> list_all completion_step xs"
  "set ys \<subseteq> {EmbedCall u v, Wait n} \<Longrightarrow> list_all embedding_step ys"
  by (auto simp: list_all_iff)

lemma completion_step_no_write: "completion_step ev \<Longrightarrow> \<not> is_store_write ev"
  by (cases ev) auto

lemma embedding_step_no_write: "embedding_step ev \<Longrightarrow> \<not> is_store_write ev"
  by (cases ev) auto

lemma no_store_write_in_steps:
  "list_all completion_step xs \<Longrightarrow> filter is_store_write xs = []"
  "list_all embedding_step ys \<Longrightarrow> filter is_store_write ys = []"
  by (auto simp: list_all_iff filter_empty_conv completion_step_no_write embedding_step_no_write)

lemmas run_defs =
  runPromptTestCase_def call_getGptCompletion_def call_embedTexts_def
  OPENAI_MAX_RETRY_def OPENAI_WAIT_TIME_SECONDS_def HUGGINGFACE_MAX_RETRY_def
  HUGGINGFACE_WAIT_TIME_SECONDS_def

lemmas eval_defs = processTestCase_def runPromptTestCase_def
  call_getGptCompletion_def call_embedTexts_def request_apply retryOnFailure.simps
  OPENAI_MAX_RETRY_def OPENAI_WAIT_TIME_SECONDS_def HUGGINGFACE_MAX_RETRY_def
  HUGGINGFACE_WAIT_TIME_SECONDS_def missing_def on_error_def updateTestCaseResultStatus_def
  saveTestCaseResult_def replaceMultiple_def split_def prompt_fields_def
  error_toString_def out_of_range_message_def js_gt_def Let_def

lemmas vector_defs = averageOfVectors_def cosineSimilarity_def math_dot_def math_norm_def
  plus_at_def js_add_Fin js_mul_Fin js_div_Fin signed_zero_def double_round_0 double_round_1

lemma scoring_case:
  "(case averageOfVectors x of
      Inl e \<Rightarrow> (Inl e, t)
    | Inr a \<Rightarrow>
        (case averageOfVectors y of
           Inl e \<Rightarrow> (Inl e, t)
         | Inr b \<Rightarrow>
             (case cosineSimilarity a b of
                Inl e \<Rightarrow> (Inl e, t)
              | Inr s \<Rightarrow> (Inr (c, s), t))))
   = (map_sum id (Pair c) (scoring x y), t)"
  by (simp add: scoring_def split: sum.splits)

text \<open>The three awaited requests of runPromptTestCase, one after the other, and the scoring.\<close>

lemma runPromptTestCase_cases:
  fixes ext p tc m em temp mt t
  defines "fp \<equiv> replaceMultiple (prompt p) (prompt_fields (number_toString ext) tc)"
  defines "g \<equiv> GptCall fp m temp mt"
  defines "good \<equiv> EmbedCall (goodCompletions tc) em"
  shows
   "(\<exists>xs e. list_all completion_step xs \<and>
        getGptCompletion ext (t @ xs) fp m temp mt = Inl e \<and>
        runPromptTestCase ext p tc m em temp mt t = (Inl e, t @ xs @ [g]))
  \<or> (\<exists>xs comps ys e. list_all completion_step xs \<and> list_all embedding_step ys \<and>
        getGptCompletion ext (t @ xs) fp m temp mt = Inr comps \<and>
        embedTexts ext (t @ xs @ [g] @ ys) comps em = Inl e \<and>
        runPromptTestCase ext p tc m em temp mt t =
          (Inl e, t @ xs @ [g] @ ys @ [EmbedCall comps em]))
  \<or> (\<exists>xs comps ys gptEmb zs e. list_all completion_step xs \<and> list_all embedding_step ys \<and>
        list_all embedding_step zs \<and>
        getGptCompletion ext (t @ xs) fp m temp mt = Inr comps \<and>
        embedTexts ext (t @ xs @ [g] @ ys) comps em = Inr gptEmb \<and>
        embedTexts ext (t @ xs @ [g] @ ys @ [EmbedCall comps em] @ zs) (goodCompletions tc) em
          = Inl e \<and>
        runPromptTestCase ext p tc m em temp mt t =
          (Inl e, t @ xs @ [g] @ ys @ [EmbedCall comps em] @ zs @ [good]))
  \<or> (\<exists>xs comps ys gptEmb zs goodEmb. list_all completion_step xs \<and>
        list_all embedding_step ys \<and> list_all embedding_step zs \<and>
        getGptCompletion ext (t @ xs) fp m temp mt = Inr comps \<and>
        embedTexts ext (t @ xs @ [g] @ ys) comps em = Inr gptEmb \<and>
        embedTexts ext (t @ xs @ [g] @ ys @ [EmbedCall comps em] @ zs) (goodCompletions tc) em
          = Inr goodEmb \<and>
        runPromptTestCase ext p tc m em temp mt t =
          (map_sum id (Pair comps) (scoring gptEmb goodEmb),
           t @ xs @ [g] @ ys @ [EmbedCall comps em] @ zs @ [good]))"
  (is "?A \<or> ?B \<or> ?C \<or> ?D")
proof -
  obtain xs where xs: "set xs \<subseteq> {g, Wait 5}"
    "retryOnFailure (request (\<lambda>t. getGptCompletion ext t fp m temp mt) g) 4 5 t =
       (getGptCompletion ext (t @ xs) fp m temp mt, t @ xs @ [g])"
    using retry_request_outcome [of g 5 "\<lambda>t. getGptCompletion ext t fp m temp mt" 4 t] by blast
  have cs: "list_all completion_step xs"
    using xs(1) unfolding g_def by (rule steps_of_set)
  show ?thesis
  proof (cases "getGptCompletion ext (t @ xs) fp m temp mt")
    case (Inl e)
    then have "runPromptTestCase ext p tc m em temp mt t = (Inl e, t @ xs @ [g])"
      using xs(2) by (simp add: run_defs fp_def g_def)
    with cs Inl have ?A by blast
    then show ?thesis by blast
  next
    case comps: (Inr comps)
    define t1 where "t1 = t @ xs @ [g]"
    obtain ys where ys: "set ys \<subseteq> {EmbedCall comps em, Wait 5}"
      "retryOnFailure (request (\<lambda>t. embedTexts ext t comps em) (EmbedCall comps em)) 4 5 t1 =
         (embedTexts ext (t1 @ ys) comps em, t1 @ ys @ [EmbedCall comps em])"
      using retry_request_outcome [of "EmbedCall comps em" 5 "\<lambda>t. embedTexts ext t comps em" 4 t1]
      by blast
    have es: "list_all embedding_step ys"
      using ys(1) by (rule steps_of_set)
    show ?thesis
    proof (cases "embedTexts ext (t1 @ ys) comps em")
      case (Inl e)
      then have "runPromptTestCase ext p tc m em temp mt t =
          (Inl e, t @ xs @ [g] @ ys @ [EmbedCall comps em])"
        using xs(2) ys(2) comps by (simp add: run_defs fp_def g_def t1_def)
      moreover have "embedTexts ext (t @ xs @ [g] @ ys) comps em = Inl e"
        using Inl by (simp add: t1_def)
      ultimately have ?B using cs es comps by blast
      then show ?thesis by blast
    next
      case gptEmb: (Inr gptEmb)
      define t2 where "t2 = t1 @ ys @ [EmbedCall comps em]"
      obtain zs where zs: "set zs \<subseteq> {good, Wait 5}"
        "retryOnFailure (request (\<lambda>t. embedTexts ext t (goodCompletions tc) em) good) 4 5 t2 =
           (embedTexts ext (t2 @ zs) (goodCompletions tc) em, t2 @ zs @ [good])"
        using retry_request_outcome
          [of good 5 "\<lambda>t. embedTexts ext t (goodCompletions tc) em" 4 t2]
        by blast
      have es': "list_all embedding_step zs"
        using zs(1) unfolding good_def by (rule steps_of_set)
      have gptEmb': "embedTexts ext (t @ xs @ [g] @ ys) comps em = Inr gptEmb"
        using gptEmb by (simp add: t1_def)
      show ?thesis
      proof (cases "embedTexts ext (t2 @ zs) (goodCompletions tc) em")
        case (Inl e)
        then have "runPromptTestCase ext p tc m em temp mt t =
            (Inl e, t @ xs @ [g] @ ys @ [EmbedCall comps em] @ zs @ [good])"
          using xs(2) ys(2) zs(2) comps gptEmb
          by (simp add: run_defs fp_def g_def good_def t1_def t2_def)
        moreover have "embedTexts ext (t @ xs @ [g] @ ys @ [EmbedCall comps em] @ zs)
            (goodCompletions tc) em = Inl e"
          using Inl by (simp add: t1_def t2_def)
        ultimately have ?C using cs es es' comps gptEmb' by blast
        then show ?thesis by blast
      next
        case goodEmb: (Inr goodEmb)
        then have "runPromptTestCase ext p tc m em temp mt t =
            (map_sum id (Pair comps) (scoring gptEmb goodEmb),
             t @ xs @ [g] @ ys @ [EmbedCall comps em] @ zs @ [good])"
          using xs(2) ys(2) zs(2) comps gptEmb
          by (simp add: run_defs fp_def g_def good_def t1_def t2_def scoring_case)
        moreover have "embedTexts ext (t @ xs @ [g] @ ys @ [EmbedCall comps em] @ zs)
            (goodCompletions tc) em = Inr goodEmb"
          using goodEmb by (simp add: t1_def t2_def)
        ultimately have ?D using cs es es' comps gptEmb' by blast
        then show ?thesis by blast
      qed
    qed
  qed
qed

lemma runPromptTestCase_steps:
  "\<exists>cs es. snd (runPromptTestCase ext p tc m em temp mt t) = t @ cs @ es \<and>
     list_all completion_step cs \<and> list_all embedding_step es"
proof -
  let ?g = "GptCall (replaceMultiple (prompt p) (prompt_fields (number_toString ext) tc)) m temp mt"
  let ?good = "EmbedCall (goodCompletions tc) em"
  have g: "completion_step ?g" by simp
  from runPromptTestCase_cases [where t = t and ext = ext and p = p and tc = tc and m = m
      and temp = temp and mt = mt and em = em]
  consider
    (a) xs where "list_all completion_step xs"
        "snd (runPromptTestCase ext p tc m em temp mt t) = t @ xs @ [?g]"
  | (b) xs ys comps where "list_all completion_step xs" "list_all embedding_step ys"
        "snd (runPromptTestCase ext p tc m em temp mt t) = t @ xs @ [?g] @ ys @ [EmbedCall comps em]"
  | (c) xs ys zs comps where "list_all completion_step xs" "list_all embedding_step ys"
        "list_all embedding_step zs"
        "snd (runPromptTestCase ext p tc m em temp mt t) =
           t @ xs @ [?g] @ ys @ [EmbedCall comps em] @ zs @ [?good]"
    by (elim disjE exE conjE) auto
  then show ?thesis
  proof cases
    case a
    then show ?thesis
      by (intro exI [of _ "xs @ [?g]"] exI [of _ "[]"]) simp
  next
    case b
    then show ?thesis
      by (intro exI [of _ "xs @ [?g]"] exI [of _ "ys @ [EmbedCall comps em]"]) simp
  next
    case c
    then show ?thesis
      by (intro exI [of _ "xs @ [?g]"] exI [of _ "ys @ [EmbedCall comps em] @ zs @ [?good]"]) simp
  qed
qed

lemma completion_exhausted:
  fixes ext p tc m em temp mt t
  defines "fp \<equiv> replaceMultiple (prompt p) (prompt_fields (number_toString ext) tc)"
  defines "g \<equiv> GptCall fp m temp mt"
  assumes "\<forall>j<4. isl (getGptCompletion ext (failed_attempts t g 5 j) fp m temp mt)"
  shows "\<exists>e. getGptCompletion ext (failed_attempts t g 5 3) fp m temp mt = Inl e \<and>
     runPromptTestCase ext p tc m em temp mt t = (Inl e, failed_attempts t g 5 3 @ [g])"
proof -
  from assms(3) have "isl (getGptCompletion ext (failed_attempts t g 5 3) fp m temp mt)"
    by simp
  then obtain e where e: "getGptCompletion ext (failed_attempts t g 5 3) fp m temp mt = Inl e"
    by (auto simp: isl_def)
  have "retryOnFailure (request (\<lambda>t. getGptCompletion ext t fp m temp mt) g) 4 5 t =
      (Inl e, failed_attempts t g 5 3 @ [g])"
    using retry_exhausted [of 4 "\<lambda>t. getGptCompletion ext t fp m temp mt" t g 5] assms(3) e
    by simp
  then have "runPromptTestCase ext p tc m em temp mt t = (Inl e, failed_attempts t g 5 3 @ [g])"
    by (simp add: run_defs fp_def g_def Let_def)
  with e show ?thesis by blast
qed

lemma first_embedding_exhausted:
  fixes ext p tc m em temp mt t comps
  defines "fp \<equiv> replaceMultiple (prompt p) (prompt_fields (number_toString ext) tc)"
  defines "g \<equiv> GptCall fp m temp mt"
  defines "e1 \<equiv> EmbedCall comps em"
  assumes "getGptCompletion ext t fp m temp mt = Inr comps"
    and "\<forall>j<4. isl (embedTexts ext (failed_attempts (t @ [g]) e1 5 j) comps em)"
  shows "\<exists>e. embedTexts ext (failed_attempts (t @ [g]) e1 5 3) comps em = Inl e \<and>
     runPromptTestCase ext p tc m em temp mt t = (Inl e, failed_attempts (t @ [g]) e1 5 3 @ [e1])"
proof -
  from assms(5) have "isl (embedTexts ext (failed_attempts (t @ [g]) e1 5 3) comps em)"
    by simp
  then obtain e where e: "embedTexts ext (failed_attempts (t @ [g]) e1 5 3) comps em = Inl e"
    by (auto simp: isl_def)
  have r1: "retryOnFailure (request (\<lambda>t. getGptCompletion ext t fp m temp mt) g) 4 5 t =
      (Inr comps, t @ [g])"
    using retry_first_success [of "request (\<lambda>t. getGptCompletion ext t fp m temp mt) g" t comps
        "t @ [g]" 4 5] assms(4)
    by (simp add: request_apply)
  have r2: "retryOnFailure (request (\<lambda>t. embedTexts ext t comps em) e1) 4 5 (t @ [g]) =
      (Inl e, failed_attempts (t @ [g]) e1 5 3 @ [e1])"
    using retry_exhausted [of 4 "\<lambda>t. embedTexts ext t comps em" "t @ [g]" e1 5] assms(5) e
    by simp
  have "runPromptTestCase ext p tc m em temp mt t =
      (Inl e, failed_attempts (t @ [g]) e1 5 3 @ [e1])"
    using r1 r2 by (simp add: run_defs fp_def g_def e1_def Let_def)
  with e show ?thesis by blast
qed

lemma second_embedding_exhausted:
  fixes ext p tc m em temp mt t comps gptEmb
  defines "fp \<equiv> replaceMultiple (prompt p) (prompt_fields (number_toString ext) tc)"
  defines "g \<equiv> GptCall fp m temp mt"
  defines "e1 \<equiv> EmbedCall comps em"
  defines "e2 \<equiv> EmbedCall (goodCompletions tc) em"
  assumes "getGptCompletion ext t fp m temp mt = Inr comps"
    and "embedTexts ext (t @ [g]) comps em = Inr gptEmb"
    and "\<forall>j<4. isl (embedTexts ext (failed_attempts (t @ [g, e1]) e2 5 j) (goodCompletions tc) em)"
  shows "\<exists>e. embedTexts ext (failed_attempts (t @ [g, e1]) e2 5 3) (goodCompletions tc) em = Inl e \<and>
     runPromptTestCase ext p tc m em temp mt t =
       (Inl e, failed_attempts (t @ [g, e1]) e2 5 3 @ [e2])"
proof -
  from assms(7)
  have "isl (embedTexts ext (failed_attempts (t @ [g, e1]) e2 5 3) (goodCompletions tc) em)"
    by simp
  then obtain e where
    e: "embedTexts ext (failed_attempts (t @ [g, e1]) e2 5 3) (goodCompletions tc) em = Inl e"
    by (auto simp: isl_def)
  have r1: "retryOnFailure (request (\<lambda>t. getGptCompletion ext t fp m temp mt) g) 4 5 t =
      (Inr comps, t @ [g])"
    using retry_first_success [of "request (\<lambda>t. getGptCompletion ext t fp m temp mt) g" t comps
        "t @ [g]" 4 5] assms(5)
    by (simp add: request_apply)
  have r2: "retryOnFailure (request (\<lambda>t. embedTexts ext t comps em) e1) 4 5 (t @ [g]) =
      (Inr gptEmb, t @ [g, e1])"
    using retry_first_success [of "request (\<lambda>t. embedTexts ext t comps em) e1" "t @ [g]" gptEmb
        "t @ [g, e1]" 4 5] assms(6)
    by (simp add: request_apply)
  have r3: "retryOnFailure (request (\<lambda>t. embedTexts ext t (goodCompletions tc) em) e2) 4 5
        (t @ [g, e1]) = (Inl e, failed_attempts (t @ [g, e1]) e2 5 3 @ [e2])"
    using retry_exhausted [of 4 "\<lambda>t. embedTexts ext t (goodCompletions tc) em" "t @ [g, e1]" e2 5]
      assms(7) e
    by simp
  have "runPromptTestCase ext p tc m em temp mt t =
      (Inl e, failed_attempts (t @ [g, e1]) e2 5 3 @ [e2])"
    using r1 r2 r3 by (simp add: run_defs fp_def g_def e1_def e2_def Let_def)
  with e show ?thesis by blast
qed

text \<open>
  C4. A retried operation that succeeds returns at once. A retried request whose first
  \<open>k\<close> attempts fail and whose next one succeeds, with \<open>k\<close> below \<open>maxAttempts\<close>, returns that
  value after \<open>k + 1\<close> requests and \<open>k\<close> waits of the fixed delay; one whose \<open>maxAttempts\<close>
  attempts all fail, with whatever errors, leaves with the error of the last attempt after
  \<open>maxAttempts\<close> requests. In \<open>runPromptTestCase\<close> the completion request and each of the
  two embedding requests is given up after 4 failed attempts with waits of 5 seconds
  between them.
\<close>

theorem retryOnFailure_behaviour:
  fixes ext p tc m em temp mt t comps gptEmb
  defines "fp \<equiv> replaceMultiple (prompt p) (prompt_fields (number_toString ext) tc)"
  defines "g \<equiv> GptCall fp m temp mt"
  defines "e1 \<equiv> EmbedCall comps em"
  defines "e2 \<equiv> EmbedCall (goodCompletions tc) em"
  shows
   "(operation s = (Inr v, s') \<longrightarrow> retryOnFailure operation n d s = (Inr v, s')) \<and>
    (k < n \<and> (\<forall>j<k. isl (f (failed_attempts s ev d j))) \<and> f (failed_attempts s ev d k) = Inr v'
       \<longrightarrow> retryOnFailure (request f ev) n d s = (Inr v', failed_attempts s ev d k @ [ev])) \<and>
    (0 < n \<and> (\<forall>j<n. isl (f (failed_attempts s ev d j)))
       \<longrightarrow> retryOnFailure (request f ev) n d s =
             (f (failed_attempts s ev d (n - 1)), failed_attempts s ev d (n - 1) @ [ev])) \<and>
    ((\<forall>j<4. isl (getGptCompletion ext (failed_attempts t g 5 j) fp m temp mt))
       \<longrightarrow> (\<exists>e. getGptCompletion ext (failed_attempts t g 5 3) fp m temp mt = Inl e \<and>
              runPromptTestCase ext p tc m em temp mt t = (Inl e, failed_attempts t g 5 3 @ [g]))) \<and>
    (getGptCompletion ext t fp m temp mt = Inr comps \<and>
     (\<forall>j<4. isl (embedTexts ext (failed_attempts (t @ [g]) e1 5 j) comps em))
       \<longrightarrow> (\<exists>e. embedTexts ext (failed_attempts (t @ [g]) e1 5 3) comps em = Inl e \<and>
              runPromptTestCase ext p tc m em temp mt t =
                (Inl e, failed_attempts (t @ [g]) e1 5 3 @ [e1]))) \<and>
    (getGptCompletion ext t fp m temp mt = Inr comps \<and>
     embedTexts ext (t @ [g]) comps em = Inr gptEmb \<and>
     (\<forall>j<4. isl (embedTexts ext (failed_attempts (t @ [g, e1]) e2 5 j) (goodCompletions tc) em))
       \<longrightarrow> (\<exists>e. embedTexts ext (failed_attempts (t @ [g, e1]) e2 5 3) (goodCompletions tc) em
                  = Inl e \<and>
              runPromptTestCase ext p tc m em temp mt t =
                (Inl e, failed_attempts (t @ [g, e1]) e2 5 3 @ [e2])))"
  unfolding fp_def g_def e1_def e2_def
  using retry_first_success [of operation s v s' n d]
    retry_success_after [of k n f s ev d v']
    retry_exhausted [of n f s ev d]
    completion_exhausted [of ext t p tc m temp mt em]
    first_embedding_exhausted [of ext t p tc m temp mt comps em]
    second_embedding_exhausted [of ext t p tc m temp mt comps em gptEmb]
  by blast

theorem retryOnFailure_behaviour_witness:
  "retryOnFailure (request fails_twice (GptCall ''p'' ''m'' (Fin 0) (Fin 1))) 4 0 [] =
     (Inr [''done''],
      [GptCall ''p'' ''m'' (Fin 0) (Fin 1), Wait 0,
       GptCall ''p'' ''m'' (Fin 0) (Fin 1), Wait 0,
       GptCall ''p'' ''m'' (Fin 0) (Fin 1)]) \<and>
   retryOnFailure (request failing (GptCall ''p'' ''m'' (Fin 0) (Fin 1))) 3 0 [] =
     (Inl (Error ''attempt 3''),
      [GptCall ''p'' ''m'' (Fin 0) (Fin 1), Wait 0,
       GptCall ''p'' ''m'' (Fin 0) (Fin 1), Wait 0,
       GptCall ''p'' ''m'' (Fin 0) (Fin 1)]) \<and>
   runPromptTestCase ext_down example_prompt example_testCase ''gpt'' ''emb'' (Fin 0) (Fin 50) [] =
     (Inl (Error ''service unavailable''),
      [GptCall ''Hi Alice, age 5'' ''gpt'' (Fin 0) (Fin 50), Wait 5,
       GptCall ''Hi Alice, age 5'' ''gpt'' (Fin 0) (Fin 50), Wait 5,
       GptCall ''Hi Alice, age 5'' ''gpt'' (Fin 0) (Fin 50), Wait 5,
       GptCall ''Hi Alice, age 5'' ''gpt'' (Fin 0) (Fin 50)])"
  using retryOnFailure_behaviour
    [where f = fails_twice and ev = "GptCall ''p'' ''m'' (Fin 0) (Fin 1)" and n = 4 and d = 0
       and s = "[]" and k = 2 and v' = "[''done'']" and ext = ext_down and t = "[]"
       and p = example_prompt and tc = example_testCase and m = "''gpt''" and em = "''emb''"
       and temp = "Fin 0" and mt = "Fin 50"]
    retryOnFailure_behaviour
    [where f = failing and ev = "GptCall ''p'' ''m'' (Fin 0) (Fin 1)" and n = 3 and d = 0
       and s = "[]"]
  by (simp add: example_defs eval_defs fails_twice_def failing_def)

subsection \<open>The status of the record\<close>

text \<open>
  C3. An invocation whose test case or whose run record lacks an identifier fails with the
  precondition error and leaves the trace as it was: no write to the result store and no
  request to a service.
\<close>

theorem processTestCase_missing_identifier:
  "missing (tc_id testCase) \<or> missing (ptr_id promptTestResults) \<Longrightarrow>
   (\<exists>message. fst (processTestCase ext p testCase promptTestResults t) = Inl (Error message)) \<and>
   snd (processTestCase ext p testCase promptTestResults t) = t \<and>
   filter is_store_write (drop (length t) (snd (processTestCase ext p testCase promptTestResults t))) = [] \<and>
   filter is_service_call (drop (length t) (snd (processTestCase ext p testCase promptTestResults t))) = []"
  by (auto simp: processTestCase_def)

theorem processTestCase_missing_identifier_witness:
  "missing (tc_id (example_testCase\<lparr>tc_id := None\<rparr>)) \<and>
   processTestCase ext_ok example_prompt (example_testCase\<lparr>tc_id := None\<rparr>) example_run [] =
     (Inl (Error ''Test case id is missing''), [])"
  using processTestCase_missing_identifier
    [of "example_testCase\<lparr>tc_id := None\<rparr>" example_run ext_ok example_prompt "[]"]
  by (simp add: processTestCase_def missing_def example_testCase_def)

lemma processTestCase_final_write:
  "\<not> missing (tc_id tc) \<Longrightarrow> \<not> missing (ptr_id run) \<Longrightarrow>
   runPromptTestCase ext p tc (llmModel run) (embeddingsModel run) (temperature run)
      (maxTokens run) (t @ [StatusWrite (the (ptr_id run)) (the (tc_id tc)) IN_PROGRESS None])
     = (r, t1) \<Longrightarrow>
   processTestCase ext p tc run t =
     (Inr (), t1 @ [final_write ext (the (ptr_id run)) (the (tc_id tc)) r])"
  by (auto simp: processTestCase_def final_write_def on_error_def updateTestCaseResultStatus_def
      saveTestCaseResult_def Let_def split: sum.splits prod.splits)

lemma final_write_store:
  "is_store_write (final_write ext rid tid r)"
  "write_key (final_write ext rid tid r) = Some (rid, tid)"
  "persisted_status (final_write ext rid tid r) = Some DONE \<or>
   persisted_status (final_write ext rid tid r) = Some ERROR"
  by (auto simp: final_write_def split: sum.splits prod.splits)

lemma processTestCase_trace:
  assumes "\<not> missing (tc_id tc)" and "\<not> missing (ptr_id run)"
  shows "\<exists>steps r.
       filter is_store_write steps = [] \<and>
       runPromptTestCase ext p tc (llmModel run) (embeddingsModel run) (temperature run)
         (maxTokens run) (t @ [StatusWrite (the (ptr_id run)) (the (tc_id tc)) IN_PROGRESS None])
         = (r, t @ [StatusWrite (the (ptr_id run)) (the (tc_id tc)) IN_PROGRESS None] @ steps) \<and>
       processTestCase ext p tc run t =
         (Inr (), t @ [StatusWrite (the (ptr_id run)) (the (tc_id tc)) IN_PROGRESS None] @ steps
                    @ [final_write ext (the (ptr_id run)) (the (tc_id tc)) r])"
proof -
  let ?rid = "the (ptr_id run)" and ?tid = "the (tc_id tc)"
  let ?ip = "StatusWrite ?rid ?tid IN_PROGRESS None"
  let ?run = "runPromptTestCase ext p tc (llmModel run) (embeddingsModel run) (temperature run)
         (maxTokens run) (t @ [?ip])"
  obtain cs es where steps: "snd ?run = (t @ [?ip]) @ cs @ es" "list_all completion_step cs"
    "list_all embedding_step es"
    using runPromptTestCase_steps by blast
  define steps where "steps = cs @ es"
  define r where "r = fst ?run"
  have no_write: "filter is_store_write steps = []"
    using steps(2,3) by (simp add: steps_def no_store_write_in_steps)
  have run: "?run = (r, t @ [?ip] @ steps)"
    using steps(1) by (simp add: prod_eq_iff steps_def r_def)
  have "processTestCase ext p tc run t =
      (Inr (), t @ [?ip] @ steps @ [final_write ext ?rid ?tid r])"
    using processTestCase_final_write [OF assms run] by simp
  with no_write run show ?thesis by blast
qed






text \<open>
  C9. With both identifiers present, the writes of one invocation to the result store are
  two, both to the record of the run and the test case: first \<open>IN_PROGRESS\<close>, then one
  write that leaves the record \<open>DONE\<close> or \<open>ERROR\<close>. Nothing is written after it.
\<close>

theorem processTestCase_status_transitions:
  assumes "\<not> missing (tc_id tc)" and "\<not> missing (ptr_id run)"
  shows "\<exists>w. filter is_store_write (drop (length t) (snd (processTestCase ext p tc run t))) =
           [StatusWrite (the (ptr_id run)) (the (tc_id tc)) IN_PROGRESS None, w] \<and>
         write_key w = Some (the (ptr_id run), the (tc_id tc)) \<and>
         (persisted_status w = Some DONE \<or> persisted_status w = Some ERROR)"
proof -
  from processTestCase_trace [OF assms, of ext p t] obtain steps r where
    steps: "filter is_store_write steps = []" and
    eq: "processTestCase ext p tc run t =
      (Inr (), t @ [StatusWrite (the (ptr_id run)) (the (tc_id tc)) IN_PROGRESS None] @ steps
                 @ [final_write ext (the (ptr_id run)) (the (tc_id tc)) r])"
    by blast
  show ?thesis
    unfolding eq using steps final_write_store [of ext "the (ptr_id run)" "the (tc_id tc)" r]
    by (intro exI [of _ "final_write ext (the (ptr_id run)) (the (tc_id tc)) r"]) simp
qed

theorem processTestCase_status_transitions_witness:
  "\<not> missing (tc_id example_testCase) \<and> \<not> missing (ptr_id example_run) \<and>
   filter is_store_write
     (drop (length ([] :: event list))
        (snd (processTestCase ext_ok example_prompt example_testCase example_run []))) =
   [StatusWrite ''run1'' ''tc1'' IN_PROGRESS None,
    ResultWrite ''run1'' ''tc1'' (Fin 1) [''I need a drink'']]"
  using processTestCase_status_transitions
    [of example_testCase example_run "[]" ext_ok example_prompt]
  by (simp add: example_defs eval_defs vector_defs)



text \<open>
  C1. The range check lets \<open>NaN\<close> through. Both embedding requests answer with zero
  vectors: the averages are zero vectors, the similarity is \<open>0 / 0\<close>, neither comparison of
  the check holds, and the result is saved: the record is \<open>DONE\<close> with a score that is
  not within the range.
\<close>

theorem NaN_score_saved:
  "processTestCase ext_zero example_prompt example_testCase example_run [] =
     (Inr (),
      [StatusWrite ''run1'' ''tc1'' IN_PROGRESS None,
       GptCall ''Hi Alice, age 5'' ''gpt'' (Fin 0) (Fin 50),
       EmbedCall [''I need a drink''] ''emb'',
       EmbedCall [''I want water''] ''emb'',
       ResultWrite ''run1'' ''tc1'' NaN [''I need a drink'']]) \<and>
   persisted_status (ResultWrite ''run1'' ''tc1'' NaN [''I need a drink'']) = Some DONE \<and>
   \<not> within_range NaN"
  by (simp add: example_defs eval_defs vector_defs within_range_def)

text \<open>What the range check does ensure: a saved score is within the range or is \<open>NaN\<close>.\<close>

lemma saved_score_within_range_or_NaN:
  assumes "ResultWrite rid tid score comps \<in> set (drop (length t) (snd (processTestCase ext p tc run t)))"
  shows "within_range score \<or> score = NaN"
proof (cases "missing (tc_id tc) \<or> missing (ptr_id run)")
  case True
  then show ?thesis using assms by (auto simp: processTestCase_def)
next
  case False
  then have ids: "\<not> missing (tc_id tc)" "\<not> missing (ptr_id run)" by simp_all
  from processTestCase_trace [OF ids, of ext p t] obtain steps r where
    steps: "filter is_store_write steps = []" and
    eq: "processTestCase ext p tc run t =
      (Inr (), t @ [StatusWrite (the (ptr_id run)) (the (tc_id tc)) IN_PROGRESS None] @ steps
                 @ [final_write ext (the (ptr_id run)) (the (tc_id tc)) r])"
    by blast
  have "ResultWrite rid tid score comps \<notin> set steps"
    using steps by (auto simp: filter_empty_conv)
  with assms have w: "final_write ext (the (ptr_id run)) (the (tc_id tc)) r =
      ResultWrite rid tid score comps"
    unfolding eq by auto
  then show ?thesis
    by (cases score)
       (auto simp: final_write_def within_range_def js_gt_def split: sum.splits prod.splits if_splits)
qed

lemma infinite_score_is_error:
  "score = PInf \<or> score = NInf \<Longrightarrow>
   final_write ext rid tid (Inr (comps, score)) =
     StatusWrite rid tid ERROR (Some (toString (Error (out_of_range_message ext score))))"
  by (auto simp: final_write_def js_gt_def)

end
